theory Spec2Isabelle
  imports Main "HOL-Library.Word" "HOL-Library.Sublist"
begin

section \<open>Values\<close>

text \<open>
  The program is one Python module, \<^verbatim>\<open>json_to_xlsx.py\<close>. Every value it handles comes out
  of \<^verbatim>\<open>json.loads\<close> or is one of the defaults written in the calls of \<^verbatim>\<open>.get\<close>:
  \<^verbatim>\<open>None\<close>, a \<^verbatim>\<open>bool\<close>, an unbounded \<^verbatim>\<open>int\<close>, a \<^verbatim>\<open>float\<close>, a \<^verbatim>\<open>str\<close>, a \<^verbatim>\<open>list\<close> or a
  \<^verbatim>\<open>dict\<close> with string keys. A float is kept as the 64 bits of its IEEE double: the
  program copies floats and never computes with them. A dict is the list of its items in
  insertion order; a lookup takes the first item with the key, which for a Python dict
  (whose keys are distinct) is the only one. A character is one code point below 256.
\<close>

datatype json =
    JNull
  | JBool bool
  | JInt int
  | JFloat "64 word"
  | JStr string
  | JArr "json list"
  | JObj "(string \<times> json) list"

text \<open>The exceptions the builders can raise.\<close>

datatype py_error = AttributeError | TypeError

type_synonym row = "(string \<times> json) list"
type_synonym table = "row list"

text \<open>
  \<^verbatim>\<open>x.get(key, default)\<close>: \<^verbatim>\<open>dict.get\<close> when \<^verbatim>\<open>x\<close> is a dict; no other value that
  \<^verbatim>\<open>json.loads\<close> returns has an attribute \<^verbatim>\<open>get\<close>, and the call raises AttributeError.
\<close>

definition dict_get :: "(string \<times> json) list \<Rightarrow> string \<Rightarrow> json \<Rightarrow> json" where
  "dict_get d key dflt = (case map_of d key of Some v \<Rightarrow> v | None \<Rightarrow> dflt)"

fun get :: "json \<Rightarrow> string \<Rightarrow> json \<Rightarrow> py_error + json" where
  "get (JObj d) key dflt = Inr (dict_get d key dflt)"
| "get _ key dflt = Inl AttributeError"

text \<open>\<^verbatim>\<open>e.get(key, default)\<close> where \<^verbatim>\<open>e\<close> is itself an expression that may have raised.\<close>

fun then_get :: "py_error + json \<Rightarrow> string \<Rightarrow> json \<Rightarrow> py_error + json" where
  "then_get (Inl e) key dflt = Inl e"
| "then_get (Inr v) key dflt = get v key dflt"

text \<open>
  \<^verbatim>\<open>for x in v\<close>: a list gives its elements, a dict its keys, a string its characters
  (each a string of length one); \<^verbatim>\<open>None\<close>, booleans and numbers are not iterable
  (TypeError).
\<close>

fun iter :: "json \<Rightarrow> py_error + json list" where
  "iter (JArr xs) = Inr xs"
| "iter (JObj d) = Inr (map (\<lambda>kv. JStr (fst kv)) d)"
| "iter (JStr s) = Inr (map (\<lambda>c. JStr [c]) s)"
| "iter _ = Inl TypeError"

fun then_iter :: "py_error + json \<Rightarrow> py_error + json list" where
  "then_iter (Inl e) = Inl e"
| "then_iter (Inr v) = iter v"

text \<open>
  A dict display \<^verbatim>\<open>{k1: e1, k2: e2, ...}\<close> with distinct literal keys: the values are
  evaluated from left to right, and the first exception leaves the display.
\<close>

fun dict_display :: "(string \<times> (py_error + json)) list \<Rightarrow> py_error + row" where
  "dict_display [] = Inr []"
| "dict_display ((k, Inl e) # rest) = Inl e"
| "dict_display ((k, Inr v) # rest) =
     (case dict_display rest of Inl e \<Rightarrow> Inl e | Inr r \<Rightarrow> Inr ((k, v) # r))"

text \<open>
  \<^verbatim>\<open>d[k] = v\<close> keeps the position of a key that is already there and appends a new key;
  \<^verbatim>\<open>d.update(u)\<close> stores the items of \<^verbatim>\<open>u\<close> in their order; \<^verbatim>\<open>d.copy()\<close> has the same
  items.
\<close>

definition dict_set :: "(string \<times> 'v) list \<Rightarrow> string \<Rightarrow> 'v \<Rightarrow> (string \<times> 'v) list" where
  "dict_set d k v =
     (if k \<in> fst ` set d then map (\<lambda>kv. if fst kv = k then (k, v) else kv) d
      else d @ [(k, v)])"

definition dict_update :: "(string \<times> 'v) list \<Rightarrow> (string \<times> 'v) list \<Rightarrow> (string \<times> 'v) list" where
  "dict_update d u = foldl (\<lambda>d' kv. dict_set d' (fst kv) (snd kv)) d u"

definition dict_copy :: "(string \<times> 'v) list \<Rightarrow> (string \<times> 'v) list" where
  "dict_copy d = d"

section \<open>The loader\<close>

text \<open>
  \<^verbatim>\<open>str.isspace\<close> on the code points below 256, \<^verbatim>\<open>str.strip()\<close> and
  \<^verbatim>\<open>str.split("\n")\<close> (which returns one empty string for the empty string).
\<close>

definition isspace :: "char \<Rightarrow> bool" where
  "isspace c = (of_char c \<in> {9, 10, 11, 12, 13, 28, 29, 30, 31, 32, 133, 160 :: nat})"

definition strip :: "string \<Rightarrow> string" where
  "strip s = rev (dropWhile isspace (rev (dropWhile isspace s)))"

fun split_nl :: "string \<Rightarrow> string list" where
  "split_nl [] = [[]]"
| "split_nl (c # cs) =
     (if c = CHR 0x0A then [] # split_nl cs
      else (case split_nl cs of l # ls \<Rightarrow> (c # l) # ls | [] \<Rightarrow> [[c]]))"

text \<open>
  What \<^verbatim>\<open>open(path).read()\<close> does is the environment's: the file is missing, or opening
  or decoding it raises another exception, or it has a text.
\<close>

datatype read_result = FileNotFoundError | OtherException | Content string

text \<open>
  \<^verbatim>\<open>json.loads\<close> is the standard library's and is a parameter \<open>loads\<close> of the loader:
  \<open>None\<close> is JSONDecodeError, which the library raises for every text that is not one
  JSON document.

  The line loop of the fallback: a line whose \<^verbatim>\<open>strip()\<close> is empty is passed over, a line
  that parses is appended, a line that raises JSONDecodeError is reported and dropped.
\<close>

fun jsonl_loop :: "(string \<Rightarrow> json option) \<Rightarrow> string list \<Rightarrow> json list \<Rightarrow> json list" where
  "jsonl_loop loads [] data = data"
| "jsonl_loop loads (line # rest) data =
     (if strip line \<noteq> [] then
        (case loads line of
           Some v \<Rightarrow> jsonl_loop loads rest (data @ [v])
         | None \<Rightarrow> jsonl_loop loads rest data)
      else jsonl_loop loads rest data)"

definition load_json_data ::
  "(string \<Rightarrow> json option) \<Rightarrow> (string \<Rightarrow> read_result) \<Rightarrow> string \<Rightarrow> json list" where
  "load_json_data loads fs json_file_path =
     (case fs json_file_path of
        FileNotFoundError \<Rightarrow> []
      | OtherException \<Rightarrow> []
      | Content text \<Rightarrow>
          (let content = strip text in
           case loads content of
             Some single_json \<Rightarrow>
               (case single_json of JArr xs \<Rightarrow> xs | _ \<Rightarrow> [single_json])
           | None \<Rightarrow> jsonl_loop loads (split_nl content) []))"

section \<open>The sheet builders\<close>

text \<open>
  A builder collects row dicts in a list and hands the list to \<^verbatim>\<open>pd.DataFrame\<close>. The
  table is that list: every row of a builder has the same keys in the same order, which
  become the columns in that order, and the frame is empty exactly when the list is.
\<close>

definition main_row :: "json \<Rightarrow> py_error + row" where
  "main_row record = dict_display [
     (''Report Start'', get record ''report_start_day'' (JStr '''')),
     (''Report End'', get record ''report_end_day'' (JStr '''')),
     (''Day'', get record ''day'' (JStr '''')),
     (''Enterprise ID'', get record ''enterprise_id'' (JStr '''')),
     (''User ID'', get record ''user_id'' (JStr '''')),
     (''User Login'', get record ''user_login'' (JStr '''')),
     (''User Initiated Interactions'', get record ''user_initiated_interaction_count'' (JInt 0)),
     (''Code Generation Activity'', get record ''code_generation_activity_count'' (JInt 0)),
     (''Code Acceptance Activity'', get record ''code_acceptance_activity_count'' (JInt 0)),
     (''LOC Suggested to Add'', get record ''loc_suggested_to_add_sum'' (JInt 0)),
     (''LOC Suggested to Delete'', get record ''loc_suggested_to_delete_sum'' (JInt 0)),
     (''LOC Added'', get record ''loc_added_sum'' (JInt 0)),
     (''LOC Deleted'', get record ''loc_deleted_sum'' (JInt 0)),
     (''Used Agent'', get record ''used_agent'' (JBool False)),
     (''Used Chat'', get record ''used_chat'' (JBool False))]"

fun main_loop :: "json list \<Rightarrow> table \<Rightarrow> py_error + table" where
  "main_loop [] main_data = Inr main_data"
| "main_loop (record # rest) main_data =
     (case main_row record of
        Inl e \<Rightarrow> Inl e
      | Inr main_row' \<Rightarrow> main_loop rest (main_data @ [main_row']))"

definition create_main_metrics_sheet :: "json list \<Rightarrow> py_error + table" where
  "create_main_metrics_sheet data = main_loop data []"

text \<open>
  The five breakdown builders are the same two nested loops, up to the nested field that
  is iterated and the dict display given to \<^verbatim>\<open>update\<close>. \<open>user_info\<close> is the display at
  the head of the outer loop's body.
\<close>

definition user_info :: "json \<Rightarrow> py_error + row" where
  "user_info record = dict_display [
     (''User Login'', get record ''user_login'' (JStr '''')),
     (''Day'', get record ''day'' (JStr ''''))]"

text \<open>
  The inner loop, \<^verbatim>\<open>for entry in record.get(field, [])\<close>: the row is a copy of
  \<open>user_info\<close> updated with the entry's display, appended to the builder's list.
\<close>

fun entries_loop ::
  "(json \<Rightarrow> py_error + row) \<Rightarrow> row \<Rightarrow> json list \<Rightarrow> table \<Rightarrow> py_error + table" where
  "entries_loop display info [] rows = Inr rows"
| "entries_loop display info (entry # rest) rows =
     (case display entry of
        Inl e \<Rightarrow> Inl e
      | Inr u \<Rightarrow> entries_loop display info rest (rows @ [dict_update (dict_copy info) u]))"

fun records_loop ::
  "string \<Rightarrow> (json \<Rightarrow> py_error + row) \<Rightarrow> json list \<Rightarrow> table \<Rightarrow> py_error + table" where
  "records_loop field display [] rows = Inr rows"
| "records_loop field display (record # rest) rows =
     (case user_info record of
        Inl e \<Rightarrow> Inl e
      | Inr info \<Rightarrow>
          (case then_iter (get record field (JArr [])) of
             Inl e \<Rightarrow> Inl e
           | Inr entries \<Rightarrow>
               (case entries_loop display info entries rows of
                  Inl e \<Rightarrow> Inl e
                | Inr rows' \<Rightarrow> records_loop field display rest rows')))"

definition ide_display :: "json \<Rightarrow> py_error + row" where
  "ide_display ide_total = dict_display [
     (''IDE'', get ide_total ''ide'' (JStr '''')),
     (''User Initiated Interactions'', get ide_total ''user_initiated_interaction_count'' (JInt 0)),
     (''Code Generation Activity'', get ide_total ''code_generation_activity_count'' (JInt 0)),
     (''Code Acceptance Activity'', get ide_total ''code_acceptance_activity_count'' (JInt 0)),
     (''LOC Suggested to Add'', get ide_total ''loc_suggested_to_add_sum'' (JInt 0)),
     (''LOC Suggested to Delete'', get ide_total ''loc_suggested_to_delete_sum'' (JInt 0)),
     (''LOC Added'', get ide_total ''loc_added_sum'' (JInt 0)),
     (''LOC Deleted'', get ide_total ''loc_deleted_sum'' (JInt 0)),
     (''Plugin Version'',
        then_get (get ide_total ''last_known_plugin_version'' (JObj []))
          ''plugin_version'' (JStr '''')),
     (''IDE Version'',
        then_get (get ide_total ''last_known_ide_version'' (JObj []))
          ''ide_version'' (JStr ''''))]"

definition create_ide_totals_sheet :: "json list \<Rightarrow> py_error + table" where
  "create_ide_totals_sheet data = records_loop ''totals_by_ide'' ide_display data []"

definition feature_display :: "json \<Rightarrow> py_error + row" where
  "feature_display feature_total = dict_display [
     (''Feature'', get feature_total ''feature'' (JStr '''')),
     (''User Initiated Interactions'',
        get feature_total ''user_initiated_interaction_count'' (JInt 0)),
     (''Code Generation Activity'', get feature_total ''code_generation_activity_count'' (JInt 0)),
     (''Code Acceptance Activity'', get feature_total ''code_acceptance_activity_count'' (JInt 0)),
     (''LOC Suggested to Add'', get feature_total ''loc_suggested_to_add_sum'' (JInt 0)),
     (''LOC Suggested to Delete'', get feature_total ''loc_suggested_to_delete_sum'' (JInt 0)),
     (''LOC Added'', get feature_total ''loc_added_sum'' (JInt 0)),
     (''LOC Deleted'', get feature_total ''loc_deleted_sum'' (JInt 0))]"

definition create_feature_totals_sheet :: "json list \<Rightarrow> py_error + table" where
  "create_feature_totals_sheet data =
     records_loop ''totals_by_feature'' feature_display data []"

definition lang_feature_display :: "json \<Rightarrow> py_error + row" where
  "lang_feature_display lang_feature = dict_display [
     (''Language'', get lang_feature ''language'' (JStr '''')),
     (''Feature'', get lang_feature ''feature'' (JStr '''')),
     (''Code Generation Activity'', get lang_feature ''code_generation_activity_count'' (JInt 0)),
     (''Code Acceptance Activity'', get lang_feature ''code_acceptance_activity_count'' (JInt 0)),
     (''LOC Suggested to Add'', get lang_feature ''loc_suggested_to_add_sum'' (JInt 0)),
     (''LOC Suggested to Delete'', get lang_feature ''loc_suggested_to_delete_sum'' (JInt 0)),
     (''LOC Added'', get lang_feature ''loc_added_sum'' (JInt 0)),
     (''LOC Deleted'', get lang_feature ''loc_deleted_sum'' (JInt 0))]"

definition create_language_feature_sheet :: "json list \<Rightarrow> py_error + table" where
  "create_language_feature_sheet data =
     records_loop ''totals_by_language_feature'' lang_feature_display data []"

definition lang_model_display :: "json \<Rightarrow> py_error + row" where
  "lang_model_display lang_model = dict_display [
     (''Language'', get lang_model ''language'' (JStr '''')),
     (''Model'', get lang_model ''model'' (JStr '''')),
     (''Code Generation Activity'', get lang_model ''code_generation_activity_count'' (JInt 0)),
     (''Code Acceptance Activity'', get lang_model ''code_acceptance_activity_count'' (JInt 0)),
     (''LOC Suggested to Add'', get lang_model ''loc_suggested_to_add_sum'' (JInt 0)),
     (''LOC Suggested to Delete'', get lang_model ''loc_suggested_to_delete_sum'' (JInt 0)),
     (''LOC Added'', get lang_model ''loc_added_sum'' (JInt 0)),
     (''LOC Deleted'', get lang_model ''loc_deleted_sum'' (JInt 0))]"

definition create_language_model_sheet :: "json list \<Rightarrow> py_error + table" where
  "create_language_model_sheet data =
     records_loop ''totals_by_language_model'' lang_model_display data []"

definition model_feature_display :: "json \<Rightarrow> py_error + row" where
  "model_feature_display model_feature = dict_display [
     (''Model'', get model_feature ''model'' (JStr '''')),
     (''Feature'', get model_feature ''feature'' (JStr '''')),
     (''User Initiated Interactions'',
        get model_feature ''user_initiated_interaction_count'' (JInt 0)),
     (''Code Generation Activity'', get model_feature ''code_generation_activity_count'' (JInt 0)),
     (''Code Acceptance Activity'', get model_feature ''code_acceptance_activity_count'' (JInt 0)),
     (''LOC Suggested to Add'', get model_feature ''loc_suggested_to_add_sum'' (JInt 0)),
     (''LOC Suggested to Delete'', get model_feature ''loc_suggested_to_delete_sum'' (JInt 0)),
     (''LOC Added'', get model_feature ''loc_added_sum'' (JInt 0)),
     (''LOC Deleted'', get model_feature ''loc_deleted_sum'' (JInt 0))]"

definition create_model_feature_sheet :: "json list \<Rightarrow> py_error + table" where
  "create_model_feature_sheet data =
     records_loop ''totals_by_model_feature'' model_feature_display data []"

section \<open>The conversion\<close>

text \<open>
  The workbook is the sequence of \<^verbatim>\<open>to_excel\<close> calls: the tabs, each a sheet name and the
  table written under it. The loop runs over the items of the \<^verbatim>\<open>sheets\<close> dict in
  insertion order and writes a sheet when its frame is not empty.
\<close>

type_synonym workbook = "(string \<times> table) list"

fun write_sheets :: "(string \<times> table) list \<Rightarrow> workbook \<Rightarrow> workbook" where
  "write_sheets [] writer = writer"
| "write_sheets ((sheet_name, df) # rest) writer =
     (if df \<noteq> [] then write_sheets rest (writer @ [(sheet_name, df)])
      else write_sheets rest writer)"

text \<open>
  The six builders are called in the order of the \<^verbatim>\<open>sheets\<close> display; an exception of a
  builder is raised before the \<^verbatim>\<open>try\<close> and leaves \<^verbatim>\<open>convert_json_to_xlsx\<close>.
\<close>

definition build_sheets :: "json list \<Rightarrow> py_error + (string \<times> table) list" where
  "build_sheets data =
     (case create_main_metrics_sheet data of Inl e \<Rightarrow> Inl e | Inr main \<Rightarrow>
      case create_ide_totals_sheet data of Inl e \<Rightarrow> Inl e | Inr ide \<Rightarrow>
      case create_feature_totals_sheet data of Inl e \<Rightarrow> Inl e | Inr feature \<Rightarrow>
      case create_language_feature_sheet data of Inl e \<Rightarrow> Inl e | Inr lang_feature \<Rightarrow>
      case create_language_model_sheet data of Inl e \<Rightarrow> Inl e | Inr lang_model \<Rightarrow>
      case create_model_feature_sheet data of Inl e \<Rightarrow> Inl e | Inr model_feature \<Rightarrow>
        Inr [(''Main_Metrics'', main),
             (''IDE_Totals'', ide),
             (''Feature_Totals'', feature),
             (''Language_Feature'', lang_feature),
             (''Language_Model'', lang_model),
             (''Model_Feature'', model_feature)])"

text \<open>
  The result of the conversion: \<open>Inl\<close> an exception of a builder; \<open>Inr None\<close> the early
  return on an empty record list, before any writer is opened; \<open>Inr (Some w)\<close> the
  workbook handed to the writer. Console output and the output path are left out.
\<close>

definition convert_json_to_xlsx ::
  "(string \<Rightarrow> json option) \<Rightarrow> (string \<Rightarrow> read_result) \<Rightarrow> string \<Rightarrow>
     py_error + workbook option" where
  "convert_json_to_xlsx loads fs json_file_path =
     (let data = load_json_data loads fs json_file_path in
      if data = [] then Inr None
      else (case build_sheets data of
              Inl e \<Rightarrow> Inl e
            | Inr sheets \<Rightarrow> Inr (Some (write_sheets sheets []))))"

section \<open>The builders over a store\<close>

text \<open>
  The builders above compute with values. What a builder does to the objects it is given
  cannot be said there, so the same code is written a second time over a store: the
  Python heap as the list of its mutable objects, an address being an index, and a new
  object going to the end. A list holds values, a dict its items in insertion order; a
  value is a scalar or a reference to an object of the store. An expression is a function
  from the store to its result, an exception or a value, and the store it leaves.
\<close>

type_synonym addr = nat

datatype pyval =
    VNone
  | VBool bool
  | VInt int
  | VFloat "64 word"
  | VStr string
  | VRef addr

datatype pyobj = OList "pyval list" | ODict "(string \<times> pyval) list"

type_synonym store = "pyobj list"

type_synonym 'a comp = "store \<Rightarrow> (py_error + 'a) \<times> store"

text \<open>
  A literal \<^verbatim>\<open>""\<close>, \<^verbatim>\<open>0\<close> or \<^verbatim>\<open>False\<close>; the displays \<^verbatim>\<open>[]\<close> and \<^verbatim>\<open>{...}\<close>, which allocate.
\<close>

definition lit :: "pyval \<Rightarrow> pyval comp" where
  "lit v s = (Inr v, s)"

definition new_list :: "pyval comp" where
  "new_list s = (Inr (VRef (length s)), s @ [OList []])"

definition new_dict :: "(string \<times> pyval) list \<Rightarrow> pyval comp" where
  "new_dict items s = (Inr (VRef (length s)), s @ [ODict items])"

text \<open>The object behind a value, when it is a dict, or a list.\<close>

fun dict_at :: "store \<Rightarrow> pyval \<Rightarrow> (string \<times> pyval) list option" where
  "dict_at s (VRef a) =
     (if a < length s then (case s ! a of ODict d \<Rightarrow> Some d | OList xs \<Rightarrow> None) else None)"
| "dict_at s _ = None"

fun list_at :: "store \<Rightarrow> pyval \<Rightarrow> pyval list option" where
  "list_at s (VRef a) =
     (if a < length s then (case s ! a of OList xs \<Rightarrow> Some xs | ODict d \<Rightarrow> None) else None)"
| "list_at s _ = None"

text \<open>
  \<^verbatim>\<open>x.get(key, default)\<close>: the attribute \<^verbatim>\<open>get\<close> is looked up first (AttributeError when
  \<^verbatim>\<open>x\<close> is not a dict), then the default is evaluated, then the key is looked up.
\<close>

definition get_st :: "pyval \<Rightarrow> string \<Rightarrow> pyval comp \<Rightarrow> pyval comp" where
  "get_st v key dflt s =
     (case dict_at s v of
        None \<Rightarrow> (Inl AttributeError, s)
      | Some d \<Rightarrow>
          (case dflt s of
             (Inl e, s') \<Rightarrow> (Inl e, s')
           | (Inr x, s') \<Rightarrow>
               (case dict_at s' v of
                  None \<Rightarrow> (Inl AttributeError, s')
                | Some items \<Rightarrow>
                    (Inr (case map_of items key of Some y \<Rightarrow> y | None \<Rightarrow> x), s'))))"

definition then_get_st :: "pyval comp \<Rightarrow> string \<Rightarrow> pyval comp \<Rightarrow> pyval comp" where
  "then_get_st c key dflt s =
     (case c s of
        (Inl e, s') \<Rightarrow> (Inl e, s')
      | (Inr v, s') \<Rightarrow> get_st v key dflt s')"

text \<open>A dict display: the values from left to right, then the new dict.\<close>

fun display_items ::
  "(string \<times> pyval comp) list \<Rightarrow> store \<Rightarrow> (py_error + (string \<times> pyval) list) \<times> store" where
  "display_items [] s = (Inr [], s)"
| "display_items ((k, c) # rest) s =
     (case c s of
        (Inl e, s') \<Rightarrow> (Inl e, s')
      | (Inr v, s') \<Rightarrow>
          (case display_items rest s' of
             (Inl e, s'') \<Rightarrow> (Inl e, s'')
           | (Inr r, s'') \<Rightarrow> (Inr ((k, v) # r), s'')))"

definition dict_display_st :: "(string \<times> pyval comp) list \<Rightarrow> pyval comp" where
  "dict_display_st items s =
     (case display_items items s of
        (Inl e, s') \<Rightarrow> (Inl e, s')
      | (Inr r, s') \<Rightarrow> new_dict r s')"

text \<open>
  \<^verbatim>\<open>d.copy()\<close> allocates a dict with the items of \<^verbatim>\<open>d\<close>; \<^verbatim>\<open>d.update(u)\<close> and
  \<^verbatim>\<open>l.append(x)\<close> write the object at the address of \<^verbatim>\<open>d\<close> and of \<^verbatim>\<open>l\<close>.
\<close>

definition copy_st :: "pyval \<Rightarrow> pyval comp" where
  "copy_st v s =
     (case dict_at s v of
        None \<Rightarrow> (Inl AttributeError, s)
      | Some items \<Rightarrow> new_dict (dict_copy items) s)"

fun update_st :: "pyval \<Rightarrow> pyval \<Rightarrow> unit comp" where
  "update_st (VRef a) u s =
     (case (dict_at s (VRef a), dict_at s u) of
        (Some d, Some items) \<Rightarrow> (Inr (), s[a := ODict (dict_update d items)])
      | (Some d, None) \<Rightarrow> (Inl TypeError, s)
      | (None, _) \<Rightarrow> (Inl AttributeError, s))"
| "update_st _ u s = (Inl AttributeError, s)"

fun append_st :: "pyval \<Rightarrow> pyval \<Rightarrow> unit comp" where
  "append_st (VRef a) x s =
     (case list_at s (VRef a) of
        Some xs \<Rightarrow> (Inr (), s[a := OList (xs @ [x])])
      | None \<Rightarrow> (Inl AttributeError, s))"
| "append_st _ x s = (Inl AttributeError, s)"

text \<open>
  \<^verbatim>\<open>for x in v\<close>. A list is iterated by index on the object as it is at each step, so a
  body that appends to the list it iterates makes the loop longer, and one that always
  does never leaves it: the loop is a partial function and \<open>None\<close> is not returning.
  The keys of a dict and the characters of a string are taken at the start.
\<close>

type_synonym loop = "store \<Rightarrow> ((py_error + unit) \<times> store) option"

partial_function (option) for_list :: "(pyval \<Rightarrow> loop) \<Rightarrow> pyval \<Rightarrow> nat \<Rightarrow> loop" where
  "for_list body l i s =
     (case list_at s l of
        None \<Rightarrow> Some (Inl TypeError, s)
      | Some xs \<Rightarrow>
          if i < length xs then
            (case body (xs ! i) s of
               None \<Rightarrow> None
             | Some (Inl e, s') \<Rightarrow> Some (Inl e, s')
             | Some (Inr u, s') \<Rightarrow> for_list body l (Suc i) s')
          else Some (Inr (), s))"

declare for_list.simps [code]

fun for_each :: "(pyval \<Rightarrow> loop) \<Rightarrow> pyval list \<Rightarrow> loop" where
  "for_each body [] s = Some (Inr (), s)"
| "for_each body (x # xs) s =
     (case body x s of
        None \<Rightarrow> None
      | Some (Inl e, s') \<Rightarrow> Some (Inl e, s')
      | Some (Inr u, s') \<Rightarrow> for_each body xs s')"

definition for_in :: "pyval \<Rightarrow> (pyval \<Rightarrow> loop) \<Rightarrow> loop" where
  "for_in v body s =
     (case v of
        VStr cs \<Rightarrow> for_each body (map (\<lambda>c. VStr [c]) cs) s
      | VRef a \<Rightarrow>
          (if a < length s then
             (case s ! a of
                OList xs \<Rightarrow> for_list body v 0 s
              | ODict d \<Rightarrow> for_each body (map (\<lambda>kv. VStr (fst kv)) d) s)
           else Some (Inl TypeError, s))
      | _ \<Rightarrow> Some (Inl TypeError, s))"

text \<open>The dict displays of the builders, as in the source.\<close>

definition main_row_st :: "pyval \<Rightarrow> pyval comp" where
  "main_row_st record = dict_display_st [
     (''Report Start'', get_st record ''report_start_day'' (lit (VStr ''''))),
     (''Report End'', get_st record ''report_end_day'' (lit (VStr ''''))),
     (''Day'', get_st record ''day'' (lit (VStr ''''))),
     (''Enterprise ID'', get_st record ''enterprise_id'' (lit (VStr ''''))),
     (''User ID'', get_st record ''user_id'' (lit (VStr ''''))),
     (''User Login'', get_st record ''user_login'' (lit (VStr ''''))),
     (''User Initiated Interactions'', get_st record ''user_initiated_interaction_count'' (lit (VInt 0))),
     (''Code Generation Activity'', get_st record ''code_generation_activity_count'' (lit (VInt 0))),
     (''Code Acceptance Activity'', get_st record ''code_acceptance_activity_count'' (lit (VInt 0))),
     (''LOC Suggested to Add'', get_st record ''loc_suggested_to_add_sum'' (lit (VInt 0))),
     (''LOC Suggested to Delete'', get_st record ''loc_suggested_to_delete_sum'' (lit (VInt 0))),
     (''LOC Added'', get_st record ''loc_added_sum'' (lit (VInt 0))),
     (''LOC Deleted'', get_st record ''loc_deleted_sum'' (lit (VInt 0))),
     (''Used Agent'', get_st record ''used_agent'' (lit (VBool False))),
     (''Used Chat'', get_st record ''used_chat'' (lit (VBool False)))]"

definition user_info_st :: "pyval \<Rightarrow> pyval comp" where
  "user_info_st record = dict_display_st [
     (''User Login'', get_st record ''user_login'' (lit (VStr ''''))),
     (''Day'', get_st record ''day'' (lit (VStr '''')))]"

definition ide_display_st :: "pyval \<Rightarrow> pyval comp" where
  "ide_display_st ide_total = dict_display_st [
     (''IDE'', get_st ide_total ''ide'' (lit (VStr ''''))),
     (''User Initiated Interactions'', get_st ide_total ''user_initiated_interaction_count'' (lit (VInt 0))),
     (''Code Generation Activity'', get_st ide_total ''code_generation_activity_count'' (lit (VInt 0))),
     (''Code Acceptance Activity'', get_st ide_total ''code_acceptance_activity_count'' (lit (VInt 0))),
     (''LOC Suggested to Add'', get_st ide_total ''loc_suggested_to_add_sum'' (lit (VInt 0))),
     (''LOC Suggested to Delete'', get_st ide_total ''loc_suggested_to_delete_sum'' (lit (VInt 0))),
     (''LOC Added'', get_st ide_total ''loc_added_sum'' (lit (VInt 0))),
     (''LOC Deleted'', get_st ide_total ''loc_deleted_sum'' (lit (VInt 0))),
     (''Plugin Version'',
        then_get_st (get_st ide_total ''last_known_plugin_version'' (new_dict []))
          ''plugin_version'' (lit (VStr ''''))),
     (''IDE Version'',
        then_get_st (get_st ide_total ''last_known_ide_version'' (new_dict []))
          ''ide_version'' (lit (VStr '''')))]"

definition feature_display_st :: "pyval \<Rightarrow> pyval comp" where
  "feature_display_st feature_total = dict_display_st [
     (''Feature'', get_st feature_total ''feature'' (lit (VStr ''''))),
     (''User Initiated Interactions'',
        get_st feature_total ''user_initiated_interaction_count'' (lit (VInt 0))),
     (''Code Generation Activity'', get_st feature_total ''code_generation_activity_count'' (lit (VInt 0))),
     (''Code Acceptance Activity'', get_st feature_total ''code_acceptance_activity_count'' (lit (VInt 0))),
     (''LOC Suggested to Add'', get_st feature_total ''loc_suggested_to_add_sum'' (lit (VInt 0))),
     (''LOC Suggested to Delete'', get_st feature_total ''loc_suggested_to_delete_sum'' (lit (VInt 0))),
     (''LOC Added'', get_st feature_total ''loc_added_sum'' (lit (VInt 0))),
     (''LOC Deleted'', get_st feature_total ''loc_deleted_sum'' (lit (VInt 0)))]"

definition lang_feature_display_st :: "pyval \<Rightarrow> pyval comp" where
  "lang_feature_display_st lang_feature = dict_display_st [
     (''Language'', get_st lang_feature ''language'' (lit (VStr ''''))),
     (''Feature'', get_st lang_feature ''feature'' (lit (VStr ''''))),
     (''Code Generation Activity'', get_st lang_feature ''code_generation_activity_count'' (lit (VInt 0))),
     (''Code Acceptance Activity'', get_st lang_feature ''code_acceptance_activity_count'' (lit (VInt 0))),
     (''LOC Suggested to Add'', get_st lang_feature ''loc_suggested_to_add_sum'' (lit (VInt 0))),
     (''LOC Suggested to Delete'', get_st lang_feature ''loc_suggested_to_delete_sum'' (lit (VInt 0))),
     (''LOC Added'', get_st lang_feature ''loc_added_sum'' (lit (VInt 0))),
     (''LOC Deleted'', get_st lang_feature ''loc_deleted_sum'' (lit (VInt 0)))]"

definition lang_model_display_st :: "pyval \<Rightarrow> pyval comp" where
  "lang_model_display_st lang_model = dict_display_st [
     (''Language'', get_st lang_model ''language'' (lit (VStr ''''))),
     (''Model'', get_st lang_model ''model'' (lit (VStr ''''))),
     (''Code Generation Activity'', get_st lang_model ''code_generation_activity_count'' (lit (VInt 0))),
     (''Code Acceptance Activity'', get_st lang_model ''code_acceptance_activity_count'' (lit (VInt 0))),
     (''LOC Suggested to Add'', get_st lang_model ''loc_suggested_to_add_sum'' (lit (VInt 0))),
     (''LOC Suggested to Delete'', get_st lang_model ''loc_suggested_to_delete_sum'' (lit (VInt 0))),
     (''LOC Added'', get_st lang_model ''loc_added_sum'' (lit (VInt 0))),
     (''LOC Deleted'', get_st lang_model ''loc_deleted_sum'' (lit (VInt 0)))]"

definition model_feature_display_st :: "pyval \<Rightarrow> pyval comp" where
  "model_feature_display_st model_feature = dict_display_st [
     (''Model'', get_st model_feature ''model'' (lit (VStr ''''))),
     (''Feature'', get_st model_feature ''feature'' (lit (VStr ''''))),
     (''User Initiated Interactions'',
        get_st model_feature ''user_initiated_interaction_count'' (lit (VInt 0))),
     (''Code Generation Activity'', get_st model_feature ''code_generation_activity_count'' (lit (VInt 0))),
     (''Code Acceptance Activity'', get_st model_feature ''code_acceptance_activity_count'' (lit (VInt 0))),
     (''LOC Suggested to Add'', get_st model_feature ''loc_suggested_to_add_sum'' (lit (VInt 0))),
     (''LOC Suggested to Delete'', get_st model_feature ''loc_suggested_to_delete_sum'' (lit (VInt 0))),
     (''LOC Added'', get_st model_feature ''loc_added_sum'' (lit (VInt 0))),
     (''LOC Deleted'', get_st model_feature ''loc_deleted_sum'' (lit (VInt 0)))]"


text \<open>
  Sequencing. A builder allocates its list, runs its loop over \<^verbatim>\<open>data\<close> and hands the list
  to \<^verbatim>\<open>pd.DataFrame\<close>; the table is that list.
\<close>

definition bind_c :: "'a comp \<Rightarrow> ('a \<Rightarrow> 'b comp) \<Rightarrow> 'b comp" where
  "bind_c c f s = (case c s of (Inl e, s') \<Rightarrow> (Inl e, s') | (Inr v, s') \<Rightarrow> f v s')"

definition build_st ::
  "(pyval \<Rightarrow> pyval \<Rightarrow> loop) \<Rightarrow> pyval \<Rightarrow> store \<Rightarrow> ((py_error + pyval) \<times> store) option" where
  "build_st body data s =
     (case new_list s of
        (Inl e, s') \<Rightarrow> Some (Inl e, s')
      | (Inr rows, s') \<Rightarrow>
          (case for_in data (body rows) s' of
             None \<Rightarrow> None
           | Some (Inl e, s'') \<Rightarrow> Some (Inl e, s'')
           | Some (Inr u, s'') \<Rightarrow> Some (Inr rows, s'')))"

text \<open>The body of the loop of \<^verbatim>\<open>create_main_metrics_sheet\<close>.\<close>

definition main_body :: "pyval \<Rightarrow> pyval \<Rightarrow> loop" where
  "main_body main_data record s =
     Some (bind_c (main_row_st record) (\<lambda>main_row'. append_st main_data main_row') s)"

definition create_main_metrics_sheet_st ::
  "pyval \<Rightarrow> store \<Rightarrow> ((py_error + pyval) \<times> store) option" where
  "create_main_metrics_sheet_st = build_st main_body"

text \<open>
  The bodies of the inner and the outer loop of a breakdown builder:
  \<^verbatim>\<open>row = user_info.copy(); row.update({...}); rows.append(row)\<close> and
  \<^verbatim>\<open>user_info = {...}; for entry in record.get(field, []): ...\<close>.
\<close>

definition entry_body :: "(pyval \<Rightarrow> pyval comp) \<Rightarrow> pyval \<Rightarrow> pyval \<Rightarrow> pyval \<Rightarrow> loop" where
  "entry_body display info rows entry s =
     Some (bind_c (copy_st info) (\<lambda>row.
           bind_c (display entry) (\<lambda>u.
           bind_c (update_st row u) (\<lambda>_. append_st rows row))) s)"

definition record_body :: "string \<Rightarrow> (pyval \<Rightarrow> pyval comp) \<Rightarrow> pyval \<Rightarrow> pyval \<Rightarrow> loop" where
  "record_body field display rows record s =
     (case user_info_st record s of
        (Inl e, s') \<Rightarrow> Some (Inl e, s')
      | (Inr info, s') \<Rightarrow>
          (case get_st record field new_list s' of
             (Inl e, s'') \<Rightarrow> Some (Inl e, s'')
           | (Inr entries, s'') \<Rightarrow> for_in entries (entry_body display info rows) s''))"

definition create_ide_totals_sheet_st ::
  "pyval \<Rightarrow> store \<Rightarrow> ((py_error + pyval) \<times> store) option" where
  "create_ide_totals_sheet_st = build_st (record_body ''totals_by_ide'' ide_display_st)"

definition create_feature_totals_sheet_st ::
  "pyval \<Rightarrow> store \<Rightarrow> ((py_error + pyval) \<times> store) option" where
  "create_feature_totals_sheet_st =
     build_st (record_body ''totals_by_feature'' feature_display_st)"

definition create_language_feature_sheet_st ::
  "pyval \<Rightarrow> store \<Rightarrow> ((py_error + pyval) \<times> store) option" where
  "create_language_feature_sheet_st =
     build_st (record_body ''totals_by_language_feature'' lang_feature_display_st)"

definition create_language_model_sheet_st ::
  "pyval \<Rightarrow> store \<Rightarrow> ((py_error + pyval) \<times> store) option" where
  "create_language_model_sheet_st =
     build_st (record_body ''totals_by_language_model'' lang_model_display_st)"

definition create_model_feature_sheet_st ::
  "pyval \<Rightarrow> store \<Rightarrow> ((py_error + pyval) \<times> store) option" where
  "create_model_feature_sheet_st =
     build_st (record_body ''totals_by_model_feature'' model_feature_display_st)"

section \<open>Notions used in the statements\<close>

fun is_object :: "json \<Rightarrow> bool" where
  "is_object (JObj d) = True"
| "is_object _ = False"

fun array_items :: "json \<Rightarrow> json list" where
  "array_items (JArr xs) = xs"
| "array_items _ = []"

definition nested_list :: "string \<Rightarrow> json \<Rightarrow> json list" where
  "nested_list field record =
     (case record of
        JObj d \<Rightarrow> (case map_of d field of Some v \<Rightarrow> array_items v | None \<Rightarrow> [])
      | _ \<Rightarrow> [])"

definition record_rows :: "string \<Rightarrow> (json \<Rightarrow> py_error + row) \<Rightarrow> json \<Rightarrow> py_error + table" where
  "record_rows field display record =
     (case user_info record of
        Inl e \<Rightarrow> Inl e
      | Inr info \<Rightarrow>
          (case then_iter (get record field (JArr [])) of
             Inl e \<Rightarrow> Inl e
           | Inr entries \<Rightarrow> entries_loop display info entries []))"

text \<open>The fifteen keys that the main-metrics builder reads from a record.\<close>

definition main_fields :: "string list" where
  "main_fields = [''report_start_day'', ''report_end_day'', ''day'', ''enterprise_id'',
     ''user_id'', ''user_login'', ''user_initiated_interaction_count'',
     ''code_generation_activity_count'', ''code_acceptance_activity_count'',
     ''loc_suggested_to_add_sum'', ''loc_suggested_to_delete_sum'', ''loc_added_sum'',
     ''loc_deleted_sum'', ''used_agent'', ''used_chat'']"

text \<open>
  A record that a breakdown builder accepts: an object whose nested field is absent or an
  array of entries that the builder's display accepts.
\<close>

definition record_ok :: "string \<Rightarrow> (json \<Rightarrow> bool) \<Rightarrow> json \<Rightarrow> bool" where
  "record_ok field entry_ok record =
     (case record of
        JObj d \<Rightarrow>
          (case map_of d field of
             None \<Rightarrow> True
           | Some v \<Rightarrow> (case v of JArr xs \<Rightarrow> list_all entry_ok xs | _ \<Rightarrow> False))
      | _ \<Rightarrow> False)"

definition ide_entry_ok :: "json \<Rightarrow> bool" where
  "ide_entry_ok entry =
     (case entry of
        JObj d \<Rightarrow> is_object (dict_get d ''last_known_plugin_version'' (JObj [])) \<and>
                  is_object (dict_get d ''last_known_ide_version'' (JObj []))
      | _ \<Rightarrow> False)"

text \<open>
  The five breakdown builders, each with the nested field it iterates and the entries its
  display accepts: an object, and for the IDE builder an object whose two version fields
  are absent or objects.
\<close>

definition breakdown_builders ::
  "(string \<times> (json \<Rightarrow> bool) \<times> (json list \<Rightarrow> py_error + table)) list" where
  "breakdown_builders = [
     (''totals_by_ide'', ide_entry_ok, create_ide_totals_sheet),
     (''totals_by_feature'', is_object, create_feature_totals_sheet),
     (''totals_by_language_feature'', is_object, create_language_feature_sheet),
     (''totals_by_language_model'', is_object, create_language_model_sheet),
     (''totals_by_model_feature'', is_object, create_model_feature_sheet)]"

text \<open>What the loops need of a display: it accepts objects only, it accepts every entry of the
  given kind, and it has neither of the two carry-over keys.\<close>

definition display_ok :: "(json \<Rightarrow> bool) \<Rightarrow> (json \<Rightarrow> py_error + row) \<Rightarrow> bool" where
  "display_ok entry_ok display \<longleftrightarrow>
     (\<forall>e u. display e = Inr u \<longrightarrow>
        is_object e \<and> ''User Login'' \<notin> fst ` set u \<and> ''Day'' \<notin> fst ` set u) \<and>
     (\<forall>e. entry_ok e \<longrightarrow> (\<exists>u. display e = Inr u))"

text \<open>
  \<^verbatim>\<open>entry.outer.inner\<close> with the default \<^verbatim>\<open>""\<close> when the nested object or its inner field is
  absent; \<open>None\<close> when \<open>entry\<close> or the value under \<open>outer\<close> is not an object.
\<close>

definition nested_field :: "json \<Rightarrow> string \<Rightarrow> string \<Rightarrow> json option" where
  "nested_field entry outer inner =
     (case entry of
        JObj d \<Rightarrow>
          (case map_of d outer of
             None \<Rightarrow> Some (JStr '''')
           | Some v \<Rightarrow>
               (case v of
                  JObj p \<Rightarrow> (case map_of p inner of None \<Rightarrow> Some (JStr '''') | Some x \<Rightarrow> Some x)
                | _ \<Rightarrow> None))
      | _ \<Rightarrow> None)"

text \<open>
  The values of the lines that are not blank and parse, in the order of the lines.
\<close>

definition parsed_lines :: "(string \<Rightarrow> json option) \<Rightarrow> string list \<Rightarrow> json list" where
  "parsed_lines loads ls =
     map (\<lambda>l. the (loads l)) (filter (\<lambda>l. strip l \<noteq> [] \<and> loads l \<noteq> None) ls)"

text \<open>
  For the concrete instances: a finite fragment of \<^verbatim>\<open>json.loads\<close> (four documents, every
  other text a JSONDecodeError) and a file system with five files, a path that cannot be
  read, and no other path.
\<close>

definition sample_loads :: "string \<Rightarrow> json option" where
  "sample_loads s =
     (if s = ''{}'' then Some (JObj [])
      else if s = ''[]'' then Some (JArr [])
      else if s = ''[{}, 7]'' then Some (JArr [JObj [], JInt 7])
      else if s = ''7'' then Some (JInt 7)
      else None)"

definition sample_fs :: "string \<Rightarrow> read_result" where
  "sample_fs p =
     (if p = ''a.json'' then Content '' [{}, 7]\<newline>''
      else if p = ''b.jsonl'' then Content ''{}\<newline>xx\<newline>\<newline>[]\<newline>''
      else if p = ''blank.json'' then Content '' \<newline>''
      else if p = ''n.json'' then Content ''7''
      else if p = ''o.json'' then Content ''{}''
      else if p = ''dir'' then OtherException
      else FileNotFoundError)"



text \<open>
  A value of the store stands for a JSON value: a scalar for itself, a reference to a list
  for an array of what its elements stand for, a reference to a dict for an object with
  the same keys in the same order. Two references to one object stand for equal values,
  so a record may occur twice in the list, as in \<open>sample_store\<close>.
\<close>

fun repr :: "store \<Rightarrow> pyval \<Rightarrow> json \<Rightarrow> bool" where
  "repr s v JNull = (v = VNone)"
| "repr s v (JBool b) = (v = VBool b)"
| "repr s v (JInt i) = (v = VInt i)"
| "repr s v (JFloat f) = (v = VFloat f)"
| "repr s v (JStr cs) = (v = VStr cs)"
| "repr s v (JArr js) =
     (case list_at s v of
        Some xs \<Rightarrow> list_all2 (\<lambda>x j. repr s x j) xs js
      | None \<Rightarrow> False)"
| "repr s v (JObj d) =
     (case dict_at s v of
        Some items \<Rightarrow>
          list_all2 (\<lambda>kv kj. fst kv = fst kj \<and> repr s (snd kv) (snd kj)) items d
      | None \<Rightarrow> False)"

definition items_repr :: "store \<Rightarrow> (string \<times> pyval) list \<Rightarrow> (string \<times> json) list \<Rightarrow> bool" where
  "items_repr s = list_all2 (\<lambda>kv kj. fst kv = fst kj \<and> repr s (snd kv) (snd kj))"

text \<open>
  What a builder over the store returns, against what the builder over values returns:
  the same exception, or a reference that stands for the table, a list of row dicts.
\<close>

definition returns_table :: "store \<Rightarrow> py_error + pyval \<Rightarrow> py_error + table \<Rightarrow> bool" where
  "returns_table s r r' =
     (case r' of
        Inl e \<Rightarrow> r = Inl e
      | Inr t \<Rightarrow> (case r of Inl e \<Rightarrow> False | Inr v \<Rightarrow> repr s v (JArr (map JObj t))))"

text \<open>The six builders, each over the store and over values.\<close>

definition sheet_builders_st ::
  "((pyval \<Rightarrow> store \<Rightarrow> ((py_error + pyval) \<times> store) option) \<times>
    (json list \<Rightarrow> py_error + table)) list" where
  "sheet_builders_st = [
     (create_main_metrics_sheet_st, create_main_metrics_sheet),
     (create_ide_totals_sheet_st, create_ide_totals_sheet),
     (create_feature_totals_sheet_st, create_feature_totals_sheet),
     (create_language_feature_sheet_st, create_language_feature_sheet),
     (create_language_model_sheet_st, create_language_model_sheet),
     (create_model_feature_sheet_st, create_model_feature_sheet)]"

text \<open>
  A store with four objects: an IDE entry, the list of the entries of a record, the
  record, and at address 3 a record list that has the record twice.
\<close>

definition sample_store :: store where
  "sample_store = [
     ODict [(''ide'', VStr ''vscode''), (''loc_added_sum'', VInt 5)],
     OList [VRef 0],
     ODict [(''day'', VStr ''2024-01-01''), (''user_login'', VStr ''alice''),
            (''totals_by_ide'', VRef 1)],
     OList [VRef 2, VRef 2]]"

definition sample_records :: "json list" where
  "sample_records =
     (let record = JObj [(''day'', JStr ''2024-01-01''), (''user_login'', JStr ''alice''),
        (''totals_by_ide'',
           JArr [JObj [(''ide'', JStr ''vscode''), (''loc_added_sum'', JInt 5)]])]
      in [record, record])"

text \<open>
  For the proofs. A loop over values, a fold that stops at the first exception. An
  expression, or a display, started in a store that extends \<open>s0\<close> only allocates and has
  the result of its counterpart over values. The invariant of a builder's loops: the
  store extends \<open>s0\<close> and the list at \<open>ra\<close>, allocated by the builder, holds references to
  row dicts that stand for the table \<open>t\<close> built so far.
\<close>

fun loopf :: "('a \<Rightarrow> 'b \<Rightarrow> py_error + 'b) \<Rightarrow> 'a list \<Rightarrow> 'b \<Rightarrow> py_error + 'b" where
  "loopf f [] t = Inr t"
| "loopf f (j # js) t = (case f j t of Inl e \<Rightarrow> Inl e | Inr t' \<Rightarrow> loopf f js t')"

definition comp_rel :: "store \<Rightarrow> pyval comp \<Rightarrow> py_error + json \<Rightarrow> bool" where
  "comp_rel s0 c r' \<longleftrightarrow>
     (\<forall>s. prefix s0 s \<longrightarrow> (\<exists>r ext. c s = (r, s @ ext) \<and> rel_sum (=) (repr s0) r r'))"

definition disp_rel :: "store \<Rightarrow> pyval comp \<Rightarrow> py_error + row \<Rightarrow> bool" where
  "disp_rel s0 c r' \<longleftrightarrow>
     (\<forall>s. prefix s0 s \<longrightarrow>
        (\<exists>ext. case r' of
           Inl e \<Rightarrow> c s = (Inl e, s @ ext)
         | Inr row \<Rightarrow>
             (\<exists>its. c s = (Inr (VRef (length s + length ext)), s @ ext @ [ODict its]) \<and>
                    items_repr s0 its row)))"

definition rows_inv :: "store \<Rightarrow> store \<Rightarrow> nat \<Rightarrow> table \<Rightarrow> bool" where
  "rows_inv s0 s ra t \<longleftrightarrow>
     prefix s0 s \<and> length s0 \<le> ra \<and> ra < length s \<and>
     (\<exists>refs. s ! ra = OList refs \<and>
        list_all2 (\<lambda>v row. \<exists>a its. v = VRef a \<and> a < length s \<and> a \<noteq> ra \<and>
                     s ! a = ODict its \<and> items_repr s0 its row) refs t)"

section \<open>Facts about the values and the rows\<close>

lemma main_row_obj:
  "main_row (JObj d) = Inr [
     (''Report Start'', dict_get d ''report_start_day'' (JStr '''')),
     (''Report End'', dict_get d ''report_end_day'' (JStr '''')),
     (''Day'', dict_get d ''day'' (JStr '''')),
     (''Enterprise ID'', dict_get d ''enterprise_id'' (JStr '''')),
     (''User ID'', dict_get d ''user_id'' (JStr '''')),
     (''User Login'', dict_get d ''user_login'' (JStr '''')),
     (''User Initiated Interactions'', dict_get d ''user_initiated_interaction_count'' (JInt 0)),
     (''Code Generation Activity'', dict_get d ''code_generation_activity_count'' (JInt 0)),
     (''Code Acceptance Activity'', dict_get d ''code_acceptance_activity_count'' (JInt 0)),
     (''LOC Suggested to Add'', dict_get d ''loc_suggested_to_add_sum'' (JInt 0)),
     (''LOC Suggested to Delete'', dict_get d ''loc_suggested_to_delete_sum'' (JInt 0)),
     (''LOC Added'', dict_get d ''loc_added_sum'' (JInt 0)),
     (''LOC Deleted'', dict_get d ''loc_deleted_sum'' (JInt 0)),
     (''Used Agent'', dict_get d ''used_agent'' (JBool False)),
     (''Used Chat'', dict_get d ''used_chat'' (JBool False))]"
  by (simp add: main_row_def)

lemma is_object_conv: "is_object r \<longleftrightarrow> (\<exists>d. r = JObj d)"
  by (cases r) simp_all

lemma dict_display_keys: "dict_display kvs = Inr r \<Longrightarrow> map fst r = map fst kvs"
proof (induction kvs arbitrary: r rule: dict_display.induct)
  case 1
  then show ?case by simp
next
  case (2 k e rest)
  then show ?case by simp
next
  case (3 k v rest)
  then show ?case by (auto split: sum.splits)
qed

lemma map_of_replace:
  "map_of (map (\<lambda>kv. if fst kv = k then (k, v) else kv) d) x =
     (if x = k \<and> k \<in> fst ` set d then Some v else map_of d x)"
  by (induction d) force+

lemma map_of_dict_set: "map_of (dict_set d k v) = (map_of d)(k \<mapsto> v)"
proof (cases "k \<in> fst ` set d")
  case True
  then show ?thesis by (auto simp: dict_set_def fun_eq_iff map_of_replace)
next
  case False
  then have "map_of d k = None" by (simp add: map_of_eq_None_iff)
  with False show ?thesis
    by (auto simp: dict_set_def fun_eq_iff map_add_def split: option.splits)
qed

lemma map_of_dict_update_other:
  "k \<notin> fst ` set u \<Longrightarrow> map_of (dict_update d u) k = map_of d k"
  unfolding dict_update_def
  by (induction u arbitrary: d) (auto simp: map_of_dict_set)

lemma entries_loop_acc:
  "entries_loop display info es acc =
     (case entries_loop display info es [] of Inl e \<Rightarrow> Inl e | Inr rs \<Rightarrow> Inr (acc @ rs))"
proof (induction es arbitrary: acc)
  case Nil
  then show ?case by simp
next
  case (Cons e es)
  show ?case
  proof (cases "display e")
    case (Inl x)
    then show ?thesis by simp
  next
    case (Inr u)
    let ?x = "dict_update (dict_copy info) u"
    have a: "entries_loop display info es (acc @ [?x]) =
        (case entries_loop display info es [] of
           Inl e \<Rightarrow> Inl e | Inr rs \<Rightarrow> Inr ((acc @ [?x]) @ rs))"
      by (rule Cons.IH)
    have b: "entries_loop display info es [?x] =
        (case entries_loop display info es [] of
           Inl e \<Rightarrow> Inl e | Inr rs \<Rightarrow> Inr ([?x] @ rs))"
      by (rule Cons.IH)
    show ?thesis
      using Inr a b by (cases "entries_loop display info es []") simp_all
  qed
qed

lemma entries_loop_Inr:
  "entries_loop display info es [] = Inr rs \<longleftrightarrow>
     (\<exists>us. list_all2 (\<lambda>e u. display e = Inr u) es us \<and>
           rs = map (\<lambda>u. dict_update (dict_copy info) u) us)"
proof (induction es arbitrary: rs)
  case Nil
  then show ?case by auto
next
  case (Cons e es)
  let ?f = "\<lambda>u. dict_update (dict_copy info) u"
  show ?case
  proof (cases "display e")
    case (Inl x)
    then show ?thesis by (auto simp: list_all2_Cons1)
  next
    case (Inr u)
    have step: "entries_loop display info (e # es) [] =
          (case entries_loop display info es [] of
             Inl e \<Rightarrow> Inl e | Inr rs' \<Rightarrow> Inr (?f u # rs'))"
      using Inr entries_loop_acc [of display info es "[?f u]"]
      by (cases "entries_loop display info es []") simp_all
    show ?thesis
    proof
      assume l: "entries_loop display info (e # es) [] = Inr rs"
      then obtain rs' where rs': "entries_loop display info es [] = Inr rs'" "rs = ?f u # rs'"
        unfolding step by (cases "entries_loop display info es []") auto
      from rs'(1) obtain us where "list_all2 (\<lambda>e u. display e = Inr u) es us" "rs' = map ?f us"
        using Cons.IH [of rs'] by blast
      with Inr rs'(2) have "list_all2 (\<lambda>e u. display e = Inr u) (e # es) (u # us) \<and>
          rs = map ?f (u # us)" by simp
      then show "\<exists>us. list_all2 (\<lambda>e u. display e = Inr u) (e # es) us \<and> rs = map ?f us"
        by blast
    next
      assume "\<exists>us. list_all2 (\<lambda>e u. display e = Inr u) (e # es) us \<and> rs = map ?f us"
      then obtain us where us: "list_all2 (\<lambda>e u. display e = Inr u) (e # es) us" "rs = map ?f us"
        by blast
      from us(1) obtain u' zs where z: "us = u' # zs" "display e = Inr u'"
        "list_all2 (\<lambda>e u. display e = Inr u) es zs"
        by (auto simp: list_all2_Cons1)
      from z(3) have "entries_loop display info es [] = Inr (map ?f zs)"
        using Cons.IH [of "map ?f zs"] by blast
      with z(1,2) us(2) Inr show "entries_loop display info (e # es) [] = Inr rs"
        unfolding step by simp
    qed
  qed
qed

lemma records_loop_step:
  "records_loop field display (r # data) acc =
     (case record_rows field display r of
        Inl e \<Rightarrow> Inl e
      | Inr rs \<Rightarrow> records_loop field display data (acc @ rs))"
proof (cases "user_info r")
  case (Inl e)
  then show ?thesis by (simp add: record_rows_def)
next
  case info: (Inr info)
  show ?thesis
  proof (cases "then_iter (get r field (JArr []))")
    case (Inl e)
    then show ?thesis using info by (simp add: record_rows_def)
  next
    case (Inr entries)
    show ?thesis
      using info Inr entries_loop_acc [of display info entries acc]
      by (simp add: record_rows_def split: sum.splits)
  qed
qed

lemma records_loop_Inr:
  "records_loop field display data acc = Inr rows \<longleftrightarrow>
     (\<exists>rss. list_all2 (\<lambda>r rs. record_rows field display r = Inr rs) data rss \<and>
            rows = acc @ concat rss)"
proof (induction data arbitrary: acc rows)
  case Nil
  then show ?case by auto
next
  case (Cons r data)
  show ?case
  proof (cases "record_rows field display r")
    case (Inl x)
    then show ?thesis by (auto simp: records_loop_step list_all2_Cons1 simp del: records_loop.simps)
  next
    case (Inr rs)
    then show ?thesis
      by (auto simp: records_loop_step Cons.IH list_all2_Cons1 simp del: records_loop.simps)
  qed
qed

lemma main_row_not_object: "\<not> is_object r \<Longrightarrow> main_row r = Inl AttributeError"
  by (cases r) (simp_all add: main_row_def)

lemma main_row_Inr_iff: "(\<exists>row. main_row r = Inr row) \<longleftrightarrow> is_object r"
  by (cases r) (simp_all add: main_row_def)

lemma main_loop_Inr:
  "main_loop data acc = Inr rows \<longleftrightarrow>
     (\<exists>rs. rows = acc @ rs \<and> list_all2 (\<lambda>r row. main_row r = Inr row) data rs)"
proof (induction data arbitrary: acc)
  case Nil
  then show ?case by auto
next
  case (Cons r data)
  show ?case
  proof (cases "main_row r")
    case (Inl e)
    then show ?thesis by (auto simp: list_all2_Cons1)
  next
    case (Inr row)
    then show ?thesis by (auto simp: Cons.IH list_all2_Cons1)
  qed
qed

lemma main_loop_total:
  "(\<forall>r\<in>set data. is_object r) \<Longrightarrow> \<exists>rows. main_loop data acc = Inr rows"
proof (induction data arbitrary: acc)
  case Nil
  then show ?case by simp
next
  case (Cons r data)
  then obtain row where "main_row r = Inr row"
    using main_row_Inr_iff [of r] by auto
  with Cons show ?case by simp
qed

lemma main_loop_fails:
  "\<not> (\<forall>r\<in>set data. is_object r) \<Longrightarrow> main_loop data acc = Inl AttributeError"
proof (induction data arbitrary: acc)
  case Nil
  then show ?case by simp
next
  case (Cons r data)
  show ?case
  proof (cases "is_object r")
    case True
    then obtain row where "main_row r = Inr row"
      using main_row_Inr_iff [of r] by auto
    with Cons True show ?thesis by simp
  next
    case False
    then show ?thesis by (simp add: main_row_not_object)
  qed
qed

lemma main_row_defaults:
  assumes "\<forall>k\<in>set main_fields. map_of d k = None"
  shows "main_row (JObj d) = Inr [
     (''Report Start'', JStr ''''), (''Report End'', JStr ''''), (''Day'', JStr ''''),
     (''Enterprise ID'', JStr ''''), (''User ID'', JStr ''''), (''User Login'', JStr ''''),
     (''User Initiated Interactions'', JInt 0), (''Code Generation Activity'', JInt 0),
     (''Code Acceptance Activity'', JInt 0), (''LOC Suggested to Add'', JInt 0),
     (''LOC Suggested to Delete'', JInt 0), (''LOC Added'', JInt 0), (''LOC Deleted'', JInt 0),
     (''Used Agent'', JBool False), (''Used Chat'', JBool False)]"
  using assms by (simp add: main_row_obj main_fields_def dict_get_def)

lemma user_info_obj:
  "user_info (JObj d) = Inr [(''User Login'', dict_get d ''user_login'' (JStr '''')),
                             (''Day'', dict_get d ''day'' (JStr ''''))]"
  by (simp add: user_info_def)

lemma user_info_not_object: "\<not> is_object r \<Longrightarrow> user_info r = Inl AttributeError"
  by (cases r) (simp_all add: user_info_def)

lemma iter_objects:
  assumes "iter v = Inr entries" "\<forall>e\<in>set entries. is_object e"
  shows "entries = array_items v"
proof (cases v)
  case (JObj kvs)
  then have "kvs = []" using assms by (cases kvs) auto
  with JObj assms show ?thesis by simp
next
  case (JStr s)
  then have "s = []" using assms by (cases s) auto
  with JStr assms show ?thesis by simp
qed (use assms in auto)

lemma record_rows_props:
  assumes rr: "record_rows field display r = Inr rs"
    and disp: "\<And>e u. display e = Inr u \<Longrightarrow>
                 is_object e \<and> ''User Login'' \<notin> fst ` set u \<and> ''Day'' \<notin> fst ` set u"
  shows "\<exists>d. r = JObj d \<and> length rs = length (nested_list field r) \<and>
           (\<forall>row\<in>set rs. map_of row ''User Login'' = Some (dict_get d ''user_login'' (JStr '''')) \<and>
                          map_of row ''Day'' = Some (dict_get d ''day'' (JStr '''')))"
proof -
  have "is_object r"
    using rr user_info_not_object [of r] by (cases "is_object r") (auto simp: record_rows_def)
  then obtain d where r: "r = JObj d" by (auto simp: is_object_conv)
  let ?info = "[(''User Login'', dict_get d ''user_login'' (JStr '''')),
                (''Day'', dict_get d ''day'' (JStr ''''))]"
  obtain entries where it: "iter (dict_get d field (JArr [])) = Inr entries"
    and el: "entries_loop display ?info entries [] = Inr rs"
    using rr unfolding r record_rows_def user_info_obj
    by (auto split: sum.splits)
  from el obtain us where us: "list_all2 (\<lambda>e u. display e = Inr u) entries us"
    and rs: "rs = map (\<lambda>u. dict_update (dict_copy ?info) u) us"
    unfolding entries_loop_Inr by blast
  have "\<forall>e\<in>set entries. is_object e"
    using us disp by (auto simp: list_all2_conv_all_nth in_set_conv_nth)
  with it have "entries = array_items (dict_get d field (JArr []))"
    by (rule iter_objects)
  then have "entries = nested_list field r"
    by (simp add: r nested_list_def dict_get_def split: option.splits)
  moreover have "length rs = length entries"
    using us rs by (simp add: list_all2_lengthD)
  moreover have "map_of row ''User Login'' = Some (dict_get d ''user_login'' (JStr '''')) \<and>
                 map_of row ''Day'' = Some (dict_get d ''day'' (JStr ''''))"
    if "row \<in> set rs" for row
  proof -
    from that rs obtain u where u: "u \<in> set us" "row = dict_update (dict_copy ?info) u"
      by auto
    from u(1) us obtain e where "display e = Inr u"
      by (auto simp: list_all2_conv_all_nth in_set_conv_nth)
    then have "''User Login'' \<notin> fst ` set u" "''Day'' \<notin> fst ` set u"
      using disp by blast+
    then show ?thesis
      by (simp add: u(2) map_of_dict_update_other dict_copy_def)
  qed
  ultimately show ?thesis using r by auto
qed

lemma list_all_ex_list_all2:
  "list_all (\<lambda>e. \<exists>u. P e u) es \<Longrightarrow> \<exists>us. list_all2 P es us"
  by (induction es) (auto simp: list_all2_Cons1)

lemma record_rows_total:
  assumes ok: "record_ok field entry_ok r"
    and disp: "\<And>e. entry_ok e \<Longrightarrow> \<exists>u. display e = Inr u"
  shows "\<exists>rs. record_rows field display r = Inr rs"
proof -
  obtain d where r: "r = JObj d"
    using ok by (cases r) (simp_all add: record_ok_def)
  obtain xs where it: "iter (dict_get d field (JArr [])) = Inr xs" and xs: "list_all entry_ok xs"
    using ok unfolding r record_ok_def dict_get_def
    by (auto split: option.splits json.splits)
  from xs disp have "list_all (\<lambda>e. \<exists>u. display e = Inr u) xs"
    by (simp add: list_all_iff)
  then have "\<exists>us. list_all2 (\<lambda>e u. display e = Inr u) xs us"
    by (rule list_all_ex_list_all2)
  then obtain us where "list_all2 (\<lambda>e u. display e = Inr u) xs us" ..
  then show ?thesis
    using it entries_loop_Inr [of display _ xs]
    by (auto simp: r record_rows_def user_info_obj)
qed

lemma records_loop_total:
  assumes "\<forall>r\<in>set data. record_ok field entry_ok r"
    and "\<And>e. entry_ok e \<Longrightarrow> \<exists>u. display e = Inr u"
  shows "\<exists>rows. records_loop field display data acc = Inr rows"
proof -
  have "list_all (\<lambda>r. \<exists>rs. record_rows field display r = Inr rs) data"
    using assms record_rows_total [of field entry_ok _ display]
    by (auto simp: list_all_iff)
  then have "\<exists>rss. list_all2 (\<lambda>r rs. record_rows field display r = Inr rs) data rss"
    by (rule list_all_ex_list_all2)
  then show ?thesis unfolding records_loop_Inr by blast
qed

lemma records_loop_not_object:
  "\<not> (\<forall>r\<in>set data. is_object r) \<Longrightarrow> \<exists>e. records_loop field display data acc = Inl e"
proof (induction data arbitrary: acc)
  case Nil
  then show ?case by simp
next
  case (Cons r data)
  show ?case
  proof (cases "record_rows field display r")
    case (Inl e)
    then show ?thesis by (simp add: records_loop_step del: records_loop.simps)
  next
    case (Inr rs)
    then have "is_object r"
      using user_info_not_object [of r] by (cases "is_object r") (auto simp: record_rows_def)
    with Cons Inr show ?thesis by (simp add: records_loop_step del: records_loop.simps)
  qed
qed

lemma records_loop_props:
  assumes rl: "records_loop field display data [] = Inr rows"
    and disp: "\<And>e u. display e = Inr u \<Longrightarrow>
                 is_object e \<and> ''User Login'' \<notin> fst ` set u \<and> ''Day'' \<notin> fst ` set u"
  shows "length rows = (\<Sum>r\<leftarrow>data. length (nested_list field r)) \<and>
         (\<exists>rss. rows = concat rss \<and> length rss = length data \<and>
            (\<forall>i<length data. \<exists>d. data ! i = JObj d \<and>
               length (rss ! i) = length (nested_list field (data ! i)) \<and>
               (\<forall>row\<in>set (rss ! i).
                  map_of row ''User Login'' = Some (dict_get d ''user_login'' (JStr '''')) \<and>
                  map_of row ''Day'' = Some (dict_get d ''day'' (JStr '''')))))"
proof -
  from rl obtain rss where rss: "list_all2 (\<lambda>r rs. record_rows field display r = Inr rs) data rss"
    and rows: "rows = concat rss"
    unfolding records_loop_Inr by auto
  have len: "length rss = length data" using rss by (simp add: list_all2_lengthD)
  have each: "\<exists>d. data ! i = JObj d \<and>
               length (rss ! i) = length (nested_list field (data ! i)) \<and>
               (\<forall>row\<in>set (rss ! i).
                  map_of row ''User Login'' = Some (dict_get d ''user_login'' (JStr '''')) \<and>
                  map_of row ''Day'' = Some (dict_get d ''day'' (JStr '''')))"
    if "i < length data" for i
  proof -
    have "record_rows field display (data ! i) = Inr (rss ! i)"
      using rss that by (simp add: list_all2_conv_all_nth)
    then show ?thesis using disp by (rule record_rows_props)
  qed
  have "map length rss = map (\<lambda>r. length (nested_list field r)) data"
    using each len by (auto simp: list_eq_iff_nth_eq)
  then have "length rows = (\<Sum>r\<leftarrow>data. length (nested_list field r))"
    by (simp add: rows length_concat)
  with rows len each show ?thesis by blast
qed

lemma ide_display_Inr:
  assumes "ide_display e = Inr u"
  shows "is_object e \<and> ''User Login'' \<notin> fst ` set u \<and> ''Day'' \<notin> fst ` set u"
proof -
  have "is_object e" using assms by (cases e) (simp_all add: ide_display_def)
  moreover have "map fst u = [''IDE'', ''User Initiated Interactions'',
      ''Code Generation Activity'', ''Code Acceptance Activity'', ''LOC Suggested to Add'',
      ''LOC Suggested to Delete'', ''LOC Added'', ''LOC Deleted'', ''Plugin Version'',
      ''IDE Version'']"
    using assms unfolding ide_display_def by (drule_tac dict_display_keys) simp
  then have "fst ` set u = set [''IDE'', ''User Initiated Interactions'',
      ''Code Generation Activity'', ''Code Acceptance Activity'', ''LOC Suggested to Add'',
      ''LOC Suggested to Delete'', ''LOC Added'', ''LOC Deleted'', ''Plugin Version'',
      ''IDE Version'']"
    by (metis set_map)
  ultimately show ?thesis by simp
qed

lemma feature_display_Inr:
  assumes "feature_display e = Inr u"
  shows "is_object e \<and> ''User Login'' \<notin> fst ` set u \<and> ''Day'' \<notin> fst ` set u"
proof -
  have "is_object e" using assms by (cases e) (simp_all add: feature_display_def)
  moreover have "map fst u = [''Feature'', ''User Initiated Interactions'',
      ''Code Generation Activity'', ''Code Acceptance Activity'', ''LOC Suggested to Add'',
      ''LOC Suggested to Delete'', ''LOC Added'', ''LOC Deleted'']"
    using assms unfolding feature_display_def by (drule_tac dict_display_keys) simp
  then have "fst ` set u = set [''Feature'', ''User Initiated Interactions'',
      ''Code Generation Activity'', ''Code Acceptance Activity'', ''LOC Suggested to Add'',
      ''LOC Suggested to Delete'', ''LOC Added'', ''LOC Deleted'']"
    by (metis set_map)
  ultimately show ?thesis by simp
qed

lemma lang_feature_display_Inr:
  assumes "lang_feature_display e = Inr u"
  shows "is_object e \<and> ''User Login'' \<notin> fst ` set u \<and> ''Day'' \<notin> fst ` set u"
proof -
  have "is_object e" using assms by (cases e) (simp_all add: lang_feature_display_def)
  moreover have "map fst u = [''Language'', ''Feature'',
      ''Code Generation Activity'', ''Code Acceptance Activity'', ''LOC Suggested to Add'',
      ''LOC Suggested to Delete'', ''LOC Added'', ''LOC Deleted'']"
    using assms unfolding lang_feature_display_def by (drule_tac dict_display_keys) simp
  then have "fst ` set u = set [''Language'', ''Feature'',
      ''Code Generation Activity'', ''Code Acceptance Activity'', ''LOC Suggested to Add'',
      ''LOC Suggested to Delete'', ''LOC Added'', ''LOC Deleted'']"
    by (metis set_map)
  ultimately show ?thesis by simp
qed

lemma lang_model_display_Inr:
  assumes "lang_model_display e = Inr u"
  shows "is_object e \<and> ''User Login'' \<notin> fst ` set u \<and> ''Day'' \<notin> fst ` set u"
proof -
  have "is_object e" using assms by (cases e) (simp_all add: lang_model_display_def)
  moreover have "map fst u = [''Language'', ''Model'',
      ''Code Generation Activity'', ''Code Acceptance Activity'', ''LOC Suggested to Add'',
      ''LOC Suggested to Delete'', ''LOC Added'', ''LOC Deleted'']"
    using assms unfolding lang_model_display_def by (drule_tac dict_display_keys) simp
  then have "fst ` set u = set [''Language'', ''Model'',
      ''Code Generation Activity'', ''Code Acceptance Activity'', ''LOC Suggested to Add'',
      ''LOC Suggested to Delete'', ''LOC Added'', ''LOC Deleted'']"
    by (metis set_map)
  ultimately show ?thesis by simp
qed

lemma model_feature_display_Inr:
  assumes "model_feature_display e = Inr u"
  shows "is_object e \<and> ''User Login'' \<notin> fst ` set u \<and> ''Day'' \<notin> fst ` set u"
proof -
  have "is_object e" using assms by (cases e) (simp_all add: model_feature_display_def)
  moreover have "map fst u = [''Model'', ''Feature'', ''User Initiated Interactions'',
      ''Code Generation Activity'', ''Code Acceptance Activity'', ''LOC Suggested to Add'',
      ''LOC Suggested to Delete'', ''LOC Added'', ''LOC Deleted'']"
    using assms unfolding model_feature_display_def by (drule_tac dict_display_keys) simp
  then have "fst ` set u = set [''Model'', ''Feature'', ''User Initiated Interactions'',
      ''Code Generation Activity'', ''Code Acceptance Activity'', ''LOC Suggested to Add'',
      ''LOC Suggested to Delete'', ''LOC Added'', ''LOC Deleted'']"
    by (metis set_map)
  ultimately show ?thesis by simp
qed

lemma ide_display_total: "ide_entry_ok e \<Longrightarrow> \<exists>u. ide_display e = Inr u"
  by (cases e) (auto simp: ide_entry_ok_def ide_display_def is_object_conv)

lemma feature_display_total: "is_object e \<Longrightarrow> \<exists>u. feature_display e = Inr u"
  by (cases e) (simp_all add: feature_display_def)

lemma lang_feature_display_total: "is_object e \<Longrightarrow> \<exists>u. lang_feature_display e = Inr u"
  by (cases e) (simp_all add: lang_feature_display_def)

lemma lang_model_display_total: "is_object e \<Longrightarrow> \<exists>u. lang_model_display e = Inr u"
  by (cases e) (simp_all add: lang_model_display_def)

lemma model_feature_display_total: "is_object e \<Longrightarrow> \<exists>u. model_feature_display e = Inr u"
  by (cases e) (simp_all add: model_feature_display_def)

lemma display_ok_ide: "display_ok ide_entry_ok ide_display"
  unfolding display_ok_def using ide_display_Inr ide_display_total by blast

lemma display_ok_feature: "display_ok is_object feature_display"
  unfolding display_ok_def using feature_display_Inr feature_display_total by blast

lemma display_ok_lang_feature: "display_ok is_object lang_feature_display"
  unfolding display_ok_def using lang_feature_display_Inr lang_feature_display_total by blast

lemma display_ok_lang_model: "display_ok is_object lang_model_display"
  unfolding display_ok_def using lang_model_display_Inr lang_model_display_total by blast

lemma display_ok_model_feature: "display_ok is_object model_feature_display"
  unfolding display_ok_def using model_feature_display_Inr model_feature_display_total by blast

lemma breakdown_builders_cases:
  assumes "(field, entry_ok, builder) \<in> set breakdown_builders"
  shows "\<exists>display. builder = (\<lambda>data. records_loop field display data []) \<and>
           display_ok entry_ok display"
proof -
  have "(field, entry_ok, builder) = (''totals_by_ide'', ide_entry_ok, create_ide_totals_sheet) \<or>
    (field, entry_ok, builder) = (''totals_by_feature'', is_object, create_feature_totals_sheet) \<or>
    (field, entry_ok, builder) =
      (''totals_by_language_feature'', is_object, create_language_feature_sheet) \<or>
    (field, entry_ok, builder) =
      (''totals_by_language_model'', is_object, create_language_model_sheet) \<or>
    (field, entry_ok, builder) =
      (''totals_by_model_feature'', is_object, create_model_feature_sheet)"
    using assms
    by (simp only: breakdown_builders_def list.set insert_iff empty_iff simp_thms)
  then show ?thesis
  proof (elim disjE)
    assume "(field, entry_ok, builder) = (''totals_by_ide'', ide_entry_ok, create_ide_totals_sheet)"
    then have 1: "field = ''totals_by_ide''" "entry_ok = ide_entry_ok"
      "builder = create_ide_totals_sheet"
      by (simp_all only: prod.inject)
    have "builder = (\<lambda>data. records_loop field ide_display data [])"
      unfolding 1 create_ide_totals_sheet_def fun_eq_iff by (rule allI) (rule refl)
    then show ?thesis
      using display_ok_ide unfolding 1(2) by (intro exI [of _ ide_display]) simp
  next
    assume "(field, entry_ok, builder) =
      (''totals_by_feature'', is_object, create_feature_totals_sheet)"
    then have 2: "field = ''totals_by_feature''" "entry_ok = is_object"
      "builder = create_feature_totals_sheet"
      by (simp_all only: prod.inject)
    have "builder = (\<lambda>data. records_loop field feature_display data [])"
      unfolding 2 create_feature_totals_sheet_def fun_eq_iff by (rule allI) (rule refl)
    then show ?thesis
      using display_ok_feature unfolding 2(2) by (intro exI [of _ feature_display]) simp
  next
    assume "(field, entry_ok, builder) =
      (''totals_by_language_feature'', is_object, create_language_feature_sheet)"
    then have 3: "field = ''totals_by_language_feature''" "entry_ok = is_object"
      "builder = create_language_feature_sheet"
      by (simp_all only: prod.inject)
    have "builder = (\<lambda>data. records_loop field lang_feature_display data [])"
      unfolding 3 create_language_feature_sheet_def fun_eq_iff by (rule allI) (rule refl)
    then show ?thesis
      using display_ok_lang_feature unfolding 3(2)
      by (intro exI [of _ lang_feature_display]) simp
  next
    assume "(field, entry_ok, builder) =
      (''totals_by_language_model'', is_object, create_language_model_sheet)"
    then have 4: "field = ''totals_by_language_model''" "entry_ok = is_object"
      "builder = create_language_model_sheet"
      by (simp_all only: prod.inject)
    have "builder = (\<lambda>data. records_loop field lang_model_display data [])"
      unfolding 4 create_language_model_sheet_def fun_eq_iff by (rule allI) (rule refl)
    then show ?thesis
      using display_ok_lang_model unfolding 4(2)
      by (intro exI [of _ lang_model_display]) simp
  next
    assume "(field, entry_ok, builder) =
      (''totals_by_model_feature'', is_object, create_model_feature_sheet)"
    then have 5: "field = ''totals_by_model_feature''" "entry_ok = is_object"
      "builder = create_model_feature_sheet"
      by (simp_all only: prod.inject)
    have "builder = (\<lambda>data. records_loop field model_feature_display data [])"
      unfolding 5 create_model_feature_sheet_def fun_eq_iff by (rule allI) (rule refl)
    then show ?thesis
      using display_ok_model_feature unfolding 5(2)
      by (intro exI [of _ model_feature_display]) simp
  qed
qed

lemma map_of_dict_update: "map_of (dict_update d u) = map_of d ++ map_of (rev u)"
  unfolding dict_update_def
  by (induction u arbitrary: d) (simp_all add: map_of_dict_set)

lemma map_of_rev_distinct: "distinct (map fst xs) \<Longrightarrow> map_of (rev xs) k = map_of xs k"
proof (induction xs)
  case Nil
  then show ?case by simp
next
  case (Cons x xs)
  obtain a b where x: "x = (a, b)" by (cases x)
  from Cons.prems have "a \<notin> fst ` set xs" by (simp add: x)
  then have "map_of (rev xs) a = None" by (simp add: map_of_eq_None_iff)
  with Cons show ?case by (auto simp: x map_add_def split: option.splits)
qed

lemma record_rows_entries:
  assumes rr: "record_rows field display (JObj d) = Inr rs"
    and disp: "\<And>e u. display e = Inr u \<Longrightarrow> is_object e"
  shows "list_all2 (\<lambda>e row. \<exists>u. display e = Inr u \<and>
           row = dict_update [(''User Login'', dict_get d ''user_login'' (JStr '''')),
                              (''Day'', dict_get d ''day'' (JStr ''''))] u)
         (nested_list field (JObj d)) rs"
proof -
  let ?info = "[(''User Login'', dict_get d ''user_login'' (JStr '''')),
                (''Day'', dict_get d ''day'' (JStr ''''))]"
  obtain entries where it: "iter (dict_get d field (JArr [])) = Inr entries"
    and el: "entries_loop display ?info entries [] = Inr rs"
    using rr unfolding record_rows_def user_info_obj
    by (auto split: sum.splits)
  from el obtain us where us: "list_all2 (\<lambda>e u. display e = Inr u) entries us"
    and rs: "rs = map (\<lambda>u. dict_update (dict_copy ?info) u) us"
    unfolding entries_loop_Inr by blast
  have "\<forall>e\<in>set entries. is_object e"
    using us disp by (auto simp: list_all2_conv_all_nth in_set_conv_nth)
  with it have "entries = array_items (dict_get d field (JArr []))"
    by (rule iter_objects)
  then have "entries = nested_list field (JObj d)"
    by (simp add: nested_list_def dict_get_def split: option.splits)
  with us rs show ?thesis
    by (simp add: list_all2_map2 dict_copy_def list_all2_mono)
qed

lemma list_all2_concat:
  "list_all2 (list_all2 P) xss yss \<Longrightarrow> list_all2 P (concat xss) (concat yss)"
  by (induction xss yss rule: list_all2_induct) (auto intro: list_all2_appendI)

lemma records_loop_entries:
  assumes rl: "records_loop field display data [] = Inr rows"
    and disp: "\<And>e u. display e = Inr u \<Longrightarrow> is_object e"
  shows "list_all2 (\<lambda>e row. \<exists>u a b. display e = Inr u \<and>
           row = dict_update [(''User Login'', a), (''Day'', b)] u)
         (concat (map (nested_list field) data)) rows"
proof -
  let ?P = "\<lambda>e row. \<exists>u a b. display e = Inr u \<and>
           row = dict_update [(''User Login'', a), (''Day'', b)] u"
  from rl obtain rss where rss: "list_all2 (\<lambda>r rs. record_rows field display r = Inr rs) data rss"
    and rows: "rows = concat rss"
    unfolding records_loop_Inr by auto
  have "list_all2 ?P (nested_list field r) rs" if "record_rows field display r = Inr rs" for r rs
  proof -
    have "is_object r"
      using that user_info_not_object [of r]
      by (cases "is_object r") (auto simp: record_rows_def)
    then obtain d where r: "r = JObj d" by (auto simp: is_object_conv)
    from that disp have "list_all2 (\<lambda>e row. \<exists>u. display e = Inr u \<and>
           row = dict_update [(''User Login'', dict_get d ''user_login'' (JStr '''')),
                              (''Day'', dict_get d ''day'' (JStr ''''))] u)
         (nested_list field (JObj d)) rs"
      unfolding r by (rule record_rows_entries)
    then show ?thesis unfolding r by (rule list_all2_mono) blast
  qed
  with rss have "list_all2 (list_all2 ?P) (map (nested_list field) data) rss"
    by (simp add: list_all2_map1 list_all2_mono)
  then show ?thesis unfolding rows by (rule list_all2_concat)
qed

lemma ide_display_versions:
  assumes "ide_display e = Inr u"
  shows "map_of u ''Plugin Version'' =
           nested_field e ''last_known_plugin_version'' ''plugin_version'' \<and>
         map_of u ''IDE Version'' = nested_field e ''last_known_ide_version'' ''ide_version''"
proof -
  have "is_object e" using assms ide_display_Inr by blast
  then obtain d where e: "e = JObj d" by (auto simp: is_object_conv)
  obtain pv where pv: "get (dict_get d ''last_known_plugin_version'' (JObj []))
      ''plugin_version'' (JStr '''') = Inr pv"
    using assms unfolding e ide_display_def
    by (cases "get (dict_get d ''last_known_plugin_version'' (JObj []))
      ''plugin_version'' (JStr '''')") simp_all
  obtain iv where iv: "get (dict_get d ''last_known_ide_version'' (JObj []))
      ''ide_version'' (JStr '''') = Inr iv"
    using assms pv unfolding e ide_display_def
    by (cases "get (dict_get d ''last_known_ide_version'' (JObj []))
      ''ide_version'' (JStr '''')") simp_all
  have u: "map_of u ''Plugin Version'' = Some pv" "map_of u ''IDE Version'' = Some iv"
    using assms pv iv unfolding e ide_display_def by auto
  have "nested_field e ''last_known_plugin_version'' ''plugin_version'' = Some pv"
    using pv unfolding e
    by (auto simp: nested_field_def dict_get_def split: option.splits json.splits)
  moreover have "nested_field e ''last_known_ide_version'' ''ide_version'' = Some iv"
    using iv unfolding e
    by (auto simp: nested_field_def dict_get_def split: option.splits json.splits)
  ultimately show ?thesis using u by simp
qed

lemma ide_display_fails: "\<not> ide_entry_ok e \<Longrightarrow> ide_display e = Inl AttributeError"
proof (cases e)
  case (JObj d)
  assume "\<not> ide_entry_ok e"
  then consider "\<not> is_object (dict_get d ''last_known_plugin_version'' (JObj []))"
    | "is_object (dict_get d ''last_known_plugin_version'' (JObj []))"
      "\<not> is_object (dict_get d ''last_known_ide_version'' (JObj []))"
    unfolding JObj ide_entry_ok_def by auto
  then show ?thesis
  proof cases
    case 1
    then have "get (dict_get d ''last_known_plugin_version'' (JObj []))
      ''plugin_version'' (JStr '''') = Inl AttributeError"
      by (cases "dict_get d ''last_known_plugin_version'' (JObj [])") simp_all
    then show ?thesis unfolding JObj ide_display_def by simp
  next
    case 2
    from 2(1) obtain pv where "get (dict_get d ''last_known_plugin_version'' (JObj []))
      ''plugin_version'' (JStr '''') = Inr pv"
      by (cases "dict_get d ''last_known_plugin_version'' (JObj [])") simp_all
    moreover from 2(2) have "get (dict_get d ''last_known_ide_version'' (JObj []))
      ''ide_version'' (JStr '''') = Inl AttributeError"
      by (cases "dict_get d ''last_known_ide_version'' (JObj [])") simp_all
    ultimately show ?thesis unfolding JObj ide_display_def by simp
  qed
qed (simp_all add: ide_display_def)

lemma ide_display_keys:
  assumes "ide_display e = Inr u"
  shows "map fst u = [''IDE'', ''User Initiated Interactions'',
      ''Code Generation Activity'', ''Code Acceptance Activity'', ''LOC Suggested to Add'',
      ''LOC Suggested to Delete'', ''LOC Added'', ''LOC Deleted'', ''Plugin Version'',
      ''IDE Version'']"
  using assms unfolding ide_display_def by (drule_tac dict_display_keys) simp

lemma ide_row_versions:
  assumes "ide_display e = Inr u"
  shows "\<exists>pv iv.
           map_of (dict_update [(''User Login'', a), (''Day'', b)] u) ''Plugin Version'' = Some pv \<and>
           nested_field e ''last_known_plugin_version'' ''plugin_version'' = Some pv \<and>
           map_of (dict_update [(''User Login'', a), (''Day'', b)] u) ''IDE Version'' = Some iv \<and>
           nested_field e ''last_known_ide_version'' ''ide_version'' = Some iv"
proof -
  have d: "distinct (map fst u)"
    unfolding ide_display_keys [OF assms] by simp
  have "''Plugin Version'' \<in> set (map fst u)" "''IDE Version'' \<in> set (map fst u)"
    unfolding ide_display_keys [OF assms] by simp_all
  then have k: "''Plugin Version'' \<in> fst ` set u" "''IDE Version'' \<in> fst ` set u"
    by (simp_all only: set_map)
  have "map_of u ''Plugin Version'' \<noteq> None" "map_of u ''IDE Version'' \<noteq> None"
    using k by (simp_all only: map_of_eq_None_iff not_not)
  then obtain pv iv where v: "map_of u ''Plugin Version'' = Some pv"
    "map_of u ''IDE Version'' = Some iv"
    by auto
  have "map_of (dict_update [(''User Login'', a), (''Day'', b)] u) ''Plugin Version'' = Some pv"
    "map_of (dict_update [(''User Login'', a), (''Day'', b)] u) ''IDE Version'' = Some iv"
    using v by (simp_all add: map_of_dict_update map_add_def map_of_rev_distinct [OF d])
  with v ide_display_versions [OF assms] show ?thesis by simp
qed

lemma jsonl_loop_parsed: "jsonl_loop loads ls data = data @ parsed_lines loads ls"
  by (induction ls arbitrary: data) (auto simp: parsed_lines_def)



lemma strip_all_space:
  assumes "\<forall>c\<in>set s. isspace c"
  shows "strip s = []"
proof -
  have d: "dropWhile isspace s = []" using assms by simp
  show ?thesis unfolding strip_def d by simp
qed

lemma load_json_data_jsonl:
  assumes "fs path = Content text" "loads (strip text) = None"
  shows "load_json_data loads fs path = parsed_lines loads (split_nl (strip text))"
  using assms by (simp add: load_json_data_def jsonl_loop_parsed)



lemma split_b: "split_nl ''{}\<newline>xx\<newline>\<newline>[]'' = [''{}'', ''xx'', '''', ''[]'']"
  by simp







lemma strip_seven: "strip ''7'' = ''7''"
  by (simp add: strip_def isspace_def)


lemma breakdown_builders_fail:
  assumes mem: "(field, entry_ok, builder) \<in> set breakdown_builders"
    and "\<not> (\<forall>r\<in>set data. is_object r)"
  shows "\<exists>e. builder data = Inl e"
proof -
  from breakdown_builders_cases [OF mem] obtain display where
    b: "builder = (\<lambda>data. records_loop field display data [])" by blast
  show ?thesis unfolding b using assms(2) by (rule records_loop_not_object)
qed

lemma breakdown_builders_total:
  assumes mem: "(field, entry_ok, builder) \<in> set breakdown_builders"
    and "\<forall>r\<in>set data. record_ok field entry_ok r"
  shows "\<exists>rows. builder data = Inr rows"
proof -
  from breakdown_builders_cases [OF mem] obtain display where
    b: "builder = (\<lambda>data. records_loop field display data [])"
    and ok: "display_ok entry_ok display" by blast
  from ok have "\<And>e. entry_ok e \<Longrightarrow> \<exists>u. display e = Inr u"
    unfolding display_ok_def by blast
  with assms(2) show ?thesis unfolding b by (rule records_loop_total)
qed

section \<open>Facts about the builders over a store\<close>

lemma dict_at_prefix:
  assumes "prefix s s'" "dict_at s v = Some d"
  shows "dict_at s' v = Some d"
proof (cases v)
  case (VRef a)
  from assms(1) obtain ext where e: "s' = s @ ext" by (auto simp: prefix_def)
  from assms(2) VRef have "a < length s" by (auto split: if_splits)
  with assms(2) VRef e show ?thesis by (simp add: nth_append)
qed (use assms in simp_all)

lemma list_at_prefix:
  assumes "prefix s s'" "list_at s v = Some xs"
  shows "list_at s' v = Some xs"
proof (cases v)
  case (VRef a)
  from assms(1) obtain ext where e: "s' = s @ ext" by (auto simp: prefix_def)
  from assms(2) VRef have "a < length s" by (auto split: if_splits)
  with assms(2) VRef e show ?thesis by (simp add: nth_append)
qed (use assms in simp_all)

lemma repr_mono:
  "repr s v j \<Longrightarrow> prefix s s' \<Longrightarrow> repr s' v j"
proof (induction j arbitrary: v)
  case (JArr js)
  from JArr.prems(1) obtain xs where xs: "list_at s v = Some xs"
    and l: "list_all2 (repr s) xs js" by (auto split: option.splits)
  have "list_all2 (repr s') xs js"
    unfolding list_all2_conv_all_nth
  proof (intro conjI allI impI)
    show "length xs = length js" using l by (simp add: list_all2_lengthD)
  next
    fix i assume i: "i < length xs"
    with l have r: "repr s (xs ! i) (js ! i)" and "i < length js"
      by (simp_all add: list_all2_conv_all_nth)
    then have "js ! i \<in> set js" by simp
    then show "repr s' (xs ! i) (js ! i)"
      using JArr.IH r JArr.prems(2) by blast
  qed
  with list_at_prefix [OF JArr.prems(2) xs] show ?case by simp
next
  case (JObj d)
  from JObj.prems(1) obtain items where it: "dict_at s v = Some items"
    and l: "list_all2 (\<lambda>kv kj. fst kv = fst kj \<and> repr s (snd kv) (snd kj)) items d"
    by (auto split: option.splits)
  have "list_all2 (\<lambda>kv kj. fst kv = fst kj \<and> repr s' (snd kv) (snd kj)) items d"
    unfolding list_all2_conv_all_nth
  proof (intro conjI allI impI)
    show "length items = length d" using l by (simp add: list_all2_lengthD)
  next
    fix i assume i: "i < length items"
    with l show "fst (items ! i) = fst (d ! i)" by (simp add: list_all2_conv_all_nth)
  next
    fix i assume i: "i < length items"
    with l have r: "repr s (snd (items ! i)) (snd (d ! i))" and "i < length d"
      by (simp_all add: list_all2_conv_all_nth)
    then have "d ! i \<in> set d" by simp
    moreover have "snd (d ! i) \<in> Basic_BNFs.snds (d ! i)"
      by (cases "d ! i") simp
    ultimately show "repr s' (snd (items ! i)) (snd (d ! i))"
      using JObj.IH r JObj.prems(2) by blast
  qed
  with dict_at_prefix [OF JObj.prems(2) it] show ?case by simp
qed simp_all

lemma items_repr_mono:
  "items_repr s its row \<Longrightarrow> prefix s s' \<Longrightarrow> items_repr s' its row"
  unfolding items_repr_def
  by (erule list_all2_mono) (auto intro: repr_mono)

lemma items_repr_map_of:
  assumes "items_repr s its d"
  shows "case map_of d k of
           None \<Rightarrow> map_of its k = None
         | Some j \<Rightarrow> (\<exists>x. map_of its k = Some x \<and> repr s x j)"
  using assms unfolding items_repr_def
  by (induction its d rule: list_all2_induct) (auto split: option.splits)

text \<open>A value that stands for a JSON value that is not an object is not a dict, in any
  later store.\<close>

lemma repr_dict_at:
  assumes "repr s0 v j" "prefix s0 s"
  shows "case j of
           JObj d \<Rightarrow> (\<exists>its. dict_at s v = Some its \<and> items_repr s0 its d)
         | _ \<Rightarrow> dict_at s v = None"
proof (cases j)
  case (JObj d)
  with assms(1) obtain its where "dict_at s0 v = Some its" "items_repr s0 its d"
    by (auto simp: items_repr_def split: option.splits)
  with dict_at_prefix [OF assms(2)] JObj show ?thesis by auto
next
  case (JArr js)
  with assms(1) obtain xs where "list_at s0 v = Some xs" by (auto split: option.splits)
  from list_at_prefix [OF assms(2) this] have "list_at s v = Some xs" .
  then have "dict_at s v = None"
    by (cases v) (auto split: if_splits pyobj.splits)
  with JArr show ?thesis by simp
qed (use assms in auto)

lemma repr_not_object:
  assumes "repr s0 v j" "prefix s0 s" "\<not> is_object j"
  shows "dict_at s v = None"
  using repr_dict_at [OF assms(1,2)] assms(3) by (cases j) simp_all

lemma repr_object:
  assumes "repr s0 v (JObj d)" "prefix s0 s"
  shows "\<exists>its. dict_at s v = Some its \<and> items_repr s0 its d"
  using repr_dict_at [OF assms] by simp

lemma get_not_object: "\<not> is_object j \<Longrightarrow> get j k d = Inl AttributeError"
  by (cases j) simp_all

lemma comp_rel_get_lit:
  assumes "repr s0 v j" "repr s0 x jx"
  shows "comp_rel s0 (get_st v k (lit x)) (get j k jx)"
  unfolding comp_rel_def
proof (intro allI impI)
  fix s assume p: "prefix s0 s"
  show "\<exists>r ext. get_st v k (lit x) s = (r, s @ ext) \<and> rel_sum (=) (repr s0) r (get j k jx)"
  proof (cases "is_object j")
    case False
    from repr_not_object [OF assms(1) p False]
    have "get_st v k (lit x) s = (Inl AttributeError, s @ [])"
      by (simp add: get_st_def)
    moreover have "get j k jx = Inl AttributeError" by (rule get_not_object [OF False])
    ultimately show ?thesis by (intro exI [of _ "Inl AttributeError"] exI [of _ "[]"]) simp
  next
    case True
    then obtain d where j: "j = JObj d" by (cases j) simp_all
    from repr_object [OF assms(1) [unfolded j] p] obtain its where
      its: "dict_at s v = Some its" "items_repr s0 its d" by auto
    from items_repr_map_of [OF its(2), of k] assms(2)
    have "rel_sum (=) (repr s0) (Inr (case map_of its k of Some y \<Rightarrow> y | None \<Rightarrow> x))
            (get j k jx)"
      by (auto simp: j dict_get_def split: option.splits)
    moreover have "get_st v k (lit x) s =
        (Inr (case map_of its k of Some y \<Rightarrow> y | None \<Rightarrow> x), s @ [])"
      using its(1) by (simp add: get_st_def lit_def)
    ultimately show ?thesis by blast
  qed
qed

lemma comp_rel_nested:
  assumes "repr s0 v j" "repr s0 x jx"
  shows "comp_rel s0 (then_get_st (get_st v k (new_dict [])) k2 (lit x))
           (then_get (get j k (JObj [])) k2 jx)"
  unfolding comp_rel_def
proof (intro allI impI)
  fix s assume p: "prefix s0 s"
  let ?c = "then_get_st (get_st v k (new_dict [])) k2 (lit x)"
  let ?r = "then_get (get j k (JObj [])) k2 jx"
  show "\<exists>r ext. ?c s = (r, s @ ext) \<and> rel_sum (=) (repr s0) r ?r"
  proof (cases "is_object j")
    case False
    from repr_not_object [OF assms(1) p False]
    have "?c s = (Inl AttributeError, s @ [])"
      by (simp add: then_get_st_def get_st_def)
    moreover have "?r = Inl AttributeError" by (simp add: get_not_object [OF False])
    ultimately show ?thesis by (intro exI [of _ "Inl AttributeError"] exI [of _ "[]"]) simp
  next
    case True
    then obtain d where j: "j = JObj d" by (cases j) simp_all
    from repr_object [OF assms(1) [unfolded j] p] obtain its where
      its: "dict_at s v = Some its" "items_repr s0 its d" by auto
    let ?s1 = "s @ [ODict []]"
    have p1: "prefix s0 ?s1" using p by (simp add: prefix_def) auto
    have its1: "dict_at ?s1 v = Some its"
      by (rule dict_at_prefix [OF _ its(1)]) simp
    show ?thesis
    proof (cases "map_of d k")
      case None
      with items_repr_map_of [OF its(2), of k] have n: "map_of its k = None" by simp
      have "get_st v k (new_dict []) s = (Inr (VRef (length s)), ?s1)"
        using its(1) its1 n by (simp add: get_st_def new_dict_def)
      then have "?c s = (Inr x, ?s1)"
        by (simp add: then_get_st_def get_st_def lit_def)
      moreover have "?r = Inr jx" using None by (simp add: j dict_get_def)
      ultimately show ?thesis using assms(2)
        by (intro exI [of _ "Inr x"] exI [of _ "[ODict []]"]) simp
    next
      case (Some jy)
      with items_repr_map_of [OF its(2), of k] obtain y where
        y: "map_of its k = Some y" "repr s0 y jy" by auto
      have g: "get_st v k (new_dict []) s = (Inr y, ?s1)"
        using its(1) its1 y(1) by (simp add: get_st_def new_dict_def)
      from comp_rel_get_lit [OF y(2) assms(2), of k2] p1 obtain r ext where
        r: "get_st y k2 (lit x) ?s1 = (r, ?s1 @ ext)" "rel_sum (=) (repr s0) r (get jy k2 jx)"
        unfolding comp_rel_def by blast
      have "?c s = (r, s @ ([ODict []] @ ext))"
        using g r(1) by (simp add: then_get_st_def)
      moreover have "?r = get jy k2 jx" using Some by (simp add: j dict_get_def)
      ultimately show ?thesis using r(2) by metis
    qed
  qed
qed

lemma display_items_rel:
  assumes "list_all2 (\<lambda>kc kr. fst kc = fst kr \<and> comp_rel s0 (snd kc) (snd kr)) items items'"
    and "prefix s0 s"
  shows "\<exists>r ext. display_items items s = (r, s @ ext) \<and>
           rel_sum (=) (items_repr s0) r (dict_display items')"
  using assms
proof (induction items items' arbitrary: s rule: list_all2_induct)
  case Nil
  show ?case by (intro exI [of _ "Inr []"] exI [of _ "[]"]) (simp add: items_repr_def)
next
  case (Cons kc items kr items')
  obtain k c where kc: "kc = (k, c)" by (cases kc)
  obtain k' r' where kr: "kr = (k', r')" by (cases kr)
  from Cons.hyps(1) kc kr have k: "k' = k" and c: "comp_rel s0 c r'" by simp_all
  from c Cons.prems obtain r ext where
    r: "c s = (r, s @ ext)" "rel_sum (=) (repr s0) r r'"
    unfolding comp_rel_def by blast
  show ?case
  proof (cases r')
    case (Inl e)
    with r(2) have "r = Inl e" by (cases r) simp_all
    with r(1) have "display_items (kc # items) s = (Inl e, s @ ext)" by (simp add: kc)
    moreover have "dict_display (kr # items') = Inl e" by (simp add: kr Inl)
    ultimately show ?thesis by (intro exI [of _ "Inl e"] exI [of _ ext]) simp
  next
    case (Inr jv)
    with r(2) obtain x where x: "r = Inr x" "repr s0 x jv" by (cases r) simp_all
    have "prefix s0 (s @ ext)" using Cons.prems by (auto simp: prefix_def)
    from Cons.IH [OF this] obtain r2 ext2 where
      r2: "display_items items (s @ ext) = (r2, (s @ ext) @ ext2)"
          "rel_sum (=) (items_repr s0) r2 (dict_display items')" by blast
    show ?thesis
    proof (cases "dict_display items'")
      case (Inl e)
      with r2(2) have "r2 = Inl e" by (cases r2) simp_all
      with r(1) x(1) r2(1) have "display_items (kc # items) s = (Inl e, s @ (ext @ ext2))"
        by (simp add: kc)
      moreover have "dict_display (kr # items') = Inl e" using Inl by (simp add: kr Inr)
      ultimately show ?thesis by (intro exI [of _ "Inl e"] exI [of _ "ext @ ext2"]) simp
    next
      case (Inr row)
      with r2(2) obtain its where its: "r2 = Inr its" "items_repr s0 its row"
        by (cases r2) simp_all
      with r(1) x(1) r2(1) have
        "display_items (kc # items) s = (Inr ((k, x) # its), s @ (ext @ ext2))"
        by (simp add: kc)
      moreover have "dict_display (kr # items') = Inr ((k, jv) # row)"
        using Inr \<open>r' = Inr jv\<close> by (simp add: kr k)
      moreover have "items_repr s0 ((k, x) # its) ((k, jv) # row)"
        using its(2) x(2) by (simp add: items_repr_def)
      ultimately show ?thesis
        by (intro exI [of _ "Inr ((k, x) # its)"] exI [of _ "ext @ ext2"]) simp
    qed
  qed
qed

lemma dict_display_st_rel:
  assumes "list_all2 (\<lambda>kc kr. fst kc = fst kr \<and> comp_rel s0 (snd kc) (snd kr)) items items'"
  shows "disp_rel s0 (dict_display_st items) (dict_display items')"
  unfolding disp_rel_def
proof (intro allI impI)
  fix s assume p: "prefix s0 s"
  from display_items_rel [OF assms p] obtain r ext where
    r: "display_items items s = (r, s @ ext)"
       "rel_sum (=) (items_repr s0) r (dict_display items')" by blast
  show "\<exists>ext. case dict_display items' of
           Inl e \<Rightarrow> dict_display_st items s = (Inl e, s @ ext)
         | Inr row \<Rightarrow>
             (\<exists>its. dict_display_st items s =
                      (Inr (VRef (length s + length ext)), s @ ext @ [ODict its]) \<and>
                    items_repr s0 its row)"
  proof (cases "dict_display items'")
    case (Inl e)
    with r(2) have "r = Inl e" by (cases r) simp_all
    with r(1) Inl show ?thesis by (intro exI [of _ ext]) (simp add: dict_display_st_def)
  next
    case (Inr row)
    with r(2) obtain its where its: "r = Inr its" "items_repr s0 its row"
      by (cases r) simp_all
    with r(1) Inr show ?thesis
      by (intro exI [of _ ext]) (simp add: dict_display_st_def new_dict_def)
  qed
qed

lemma main_row_st_rel: "repr s0 v j \<Longrightarrow> disp_rel s0 (main_row_st v) (main_row j)"
  unfolding main_row_st_def main_row_def
  by (rule dict_display_st_rel) (simp add: comp_rel_get_lit)

lemma user_info_st_rel: "repr s0 v j \<Longrightarrow> disp_rel s0 (user_info_st v) (user_info j)"
  unfolding user_info_st_def user_info_def
  by (rule dict_display_st_rel) (simp add: comp_rel_get_lit)

lemma ide_display_st_rel: "repr s0 v j \<Longrightarrow> disp_rel s0 (ide_display_st v) (ide_display j)"
  unfolding ide_display_st_def ide_display_def
  by (rule dict_display_st_rel) (simp add: comp_rel_get_lit comp_rel_nested)

lemma feature_display_st_rel:
  "repr s0 v j \<Longrightarrow> disp_rel s0 (feature_display_st v) (feature_display j)"
  unfolding feature_display_st_def feature_display_def
  by (rule dict_display_st_rel) (simp add: comp_rel_get_lit)

lemma lang_feature_display_st_rel:
  "repr s0 v j \<Longrightarrow> disp_rel s0 (lang_feature_display_st v) (lang_feature_display j)"
  unfolding lang_feature_display_st_def lang_feature_display_def
  by (rule dict_display_st_rel) (simp add: comp_rel_get_lit)

lemma lang_model_display_st_rel:
  "repr s0 v j \<Longrightarrow> disp_rel s0 (lang_model_display_st v) (lang_model_display j)"
  unfolding lang_model_display_st_def lang_model_display_def
  by (rule dict_display_st_rel) (simp add: comp_rel_get_lit)

lemma model_feature_display_st_rel:
  "repr s0 v j \<Longrightarrow> disp_rel s0 (model_feature_display_st v) (model_feature_display j)"
  unfolding model_feature_display_st_def model_feature_display_def
  by (rule dict_display_st_rel) (simp add: comp_rel_get_lit)


lemma for_each_rule:
  assumes "list_all2 R xs js"
    and step: "\<And>x j s t. R x j \<Longrightarrow> I s t \<Longrightarrow>
      \<exists>r s'. body x s = Some (r, s') \<and>
        (case f j t of Inl e \<Rightarrow> r = Inl e \<and> E s' | Inr t' \<Rightarrow> r = Inr () \<and> I s' t')"
    and "I s t"
  shows "\<exists>r s'. for_each body xs s = Some (r, s') \<and>
           (case loopf f js t of Inl e \<Rightarrow> r = Inl e \<and> E s' | Inr t' \<Rightarrow> r = Inr () \<and> I s' t')"
  using assms(1,3)
proof (induction xs js arbitrary: s t rule: list_all2_induct)
  case Nil
  then show ?case by simp
next
  case (Cons x xs j js)
  from step [OF Cons.hyps(1) Cons.prems] obtain r s' where
    b: "body x s = Some (r, s')"
       "case f j t of Inl e \<Rightarrow> r = Inl e \<and> E s' | Inr t' \<Rightarrow> r = Inr () \<and> I s' t'" by blast
  show ?case
  proof (cases "f j t")
    case (Inl e)
    with b show ?thesis by simp
  next
    case (Inr t')
    with b have r: "r = Inr ()" and i: "I s' t'" by simp_all
    from Cons.IH [OF i] b(1) r Inr show ?thesis by simp
  qed
qed

lemma for_list_rule:
  assumes "list_all2 R (drop i xs) js"
    and step: "\<And>x j s t. R x j \<Longrightarrow> I s t \<Longrightarrow>
      \<exists>r s'. body x s = Some (r, s') \<and>
        (case f j t of Inl e \<Rightarrow> r = Inl e \<and> E s' | Inr t' \<Rightarrow> r = Inr () \<and> I s' t')"
    and "I s t"
    and live: "\<And>s t. I s t \<Longrightarrow> list_at s l = Some xs"
  shows "\<exists>r s'. for_list body l i s = Some (r, s') \<and>
           (case loopf f js t of Inl e \<Rightarrow> r = Inl e \<and> E s' | Inr t' \<Rightarrow> r = Inr () \<and> I s' t')"
  using assms(1,3)
proof (induction js arbitrary: i s t rule: list.induct)
  case Nil
  have inv: "I s t" by fact
  have "list_all2 R (drop i xs) []" by fact
  then have "\<not> i < length xs" by simp
  with live [OF inv] have "for_list body l i s = Some (Inr (), s)"
    by (subst for_list.simps) simp
  with inv show ?case by simp
next
  case (Cons j js)
  have inv: "I s t" by fact
  have dl: "list_all2 R (drop i xs) (j # js)" by fact
  then have i: "i < length xs"
    by (cases "i < length xs") simp_all
  then have d: "drop i xs = xs ! i # drop (Suc i) xs" by (rule Cons_nth_drop_Suc [symmetric])
  with dl have x: "R (xs ! i) j" and rest: "list_all2 R (drop (Suc i) xs) js"
    by simp_all
  from step [OF x inv] obtain r s' where
    b: "body (xs ! i) s = Some (r, s')"
       "case f j t of Inl e \<Rightarrow> r = Inl e \<and> E s' | Inr t' \<Rightarrow> r = Inr () \<and> I s' t'" by blast
  show ?case
  proof (cases "f j t")
    case (Inl e)
    with b live [OF inv] i show ?thesis
      by (subst for_list.simps) simp
  next
    case (Inr t')
    with b have r: "r = Inr ()" and inv': "I s' t'" by simp_all
    have "for_list body l i s = for_list body l (Suc i) s'"
      using b(1) r live [OF inv] i by (subst for_list.simps) simp
    with Cons.IH [OF rest inv'] Inr show ?thesis by simp
  qed
qed

lemma for_in_rule:
  assumes "repr s0 v j"
    and step: "\<And>x j s t. repr s0 x j \<Longrightarrow> I s t \<Longrightarrow>
      \<exists>r s'. body x s = Some (r, s') \<and>
        (case f j t of Inl e \<Rightarrow> r = Inl e \<and> E s' | Inr t' \<Rightarrow> r = Inr () \<and> I s' t')"
    and "I s t"
    and pre: "\<And>s t. I s t \<Longrightarrow> prefix s0 s"
  shows "\<exists>r s'. for_in v body s = Some (r, s') \<and>
           (case iter j of
              Inl e \<Rightarrow> r = Inl e \<and> s' = s
            | Inr js \<Rightarrow>
                (case loopf f js t of
                   Inl e \<Rightarrow> r = Inl e \<and> E s'
                 | Inr t' \<Rightarrow> r = Inr () \<and> I s' t'))"
proof (cases j)
  case (JArr js)
  with assms(1) obtain xs where xs: "list_at s0 v = Some xs" "list_all2 (repr s0) xs js"
    by (auto split: option.splits)
  have live: "\<And>s t. I s t \<Longrightarrow> list_at s v = Some xs"
    by (rule list_at_prefix [OF pre xs(1)])
  from live [OF assms(3)] have "for_in v body s = for_list body v 0 s"
    by (cases v) (auto simp: for_in_def split: if_splits pyobj.splits)
  moreover have "\<exists>r s'. for_list body v 0 s = Some (r, s') \<and>
           (case loopf f js t of Inl e \<Rightarrow> r = Inl e \<and> E s' | Inr t' \<Rightarrow> r = Inr () \<and> I s' t')"
  proof (rule for_list_rule [where R = "repr s0" and I = I and E = E and f = f
        and body = body and xs = xs])
    show "list_all2 (repr s0) (drop 0 xs) js" using xs(2) by simp
    show "I s t" by fact
  next
    fix x j s t assume "repr s0 x j" "I s t"
    then show "\<exists>r s'. body x s = Some (r, s') \<and>
        (case f j t of Inl e \<Rightarrow> r = Inl e \<and> E s' | Inr t' \<Rightarrow> r = Inr () \<and> I s' t')"
      by (rule step)
  next
    fix s t assume "I s t"
    then show "list_at s v = Some xs" by (rule live)
  qed
  ultimately show ?thesis by (simp add: JArr)
next
  case (JObj d)
  from repr_object [OF assms(1) [unfolded JObj] pre [OF assms(3)]] obtain its where
    its: "dict_at s v = Some its" "items_repr s0 its d" by blast
  have "for_in v body s = for_each body (map (\<lambda>kv. VStr (fst kv)) its) s"
    using its(1) by (cases v) (auto simp: for_in_def split: if_splits pyobj.splits)
  moreover have "\<exists>r s'. for_each body (map (\<lambda>kv. VStr (fst kv)) its) s = Some (r, s') \<and>
           (case loopf f (map (\<lambda>kv. JStr (fst kv)) d) t of
              Inl e \<Rightarrow> r = Inl e \<and> E s' | Inr t' \<Rightarrow> r = Inr () \<and> I s' t')"
  proof (rule for_each_rule [where R = "repr s0" and I = I and E = E and f = f
        and body = body])
    show "list_all2 (repr s0) (map (\<lambda>kv. VStr (fst kv)) its)
        (map (\<lambda>kv. JStr (fst kv)) d)"
      using its(2) unfolding items_repr_def list_all2_map1 list_all2_map2
      by (rule list_all2_mono) simp
    show "I s t" by fact
  next
    fix x j s t assume "repr s0 x j" "I s t"
    then show "\<exists>r s'. body x s = Some (r, s') \<and>
        (case f j t of Inl e \<Rightarrow> r = Inl e \<and> E s' | Inr t' \<Rightarrow> r = Inr () \<and> I s' t')"
      by (rule step)
  qed
  ultimately show ?thesis by (simp add: JObj)
next
  case (JStr cs)
  with assms(1) have v: "v = VStr cs" by simp
  have "\<exists>r s'. for_each body (map (\<lambda>c. VStr [c]) cs) s = Some (r, s') \<and>
           (case loopf f (map (\<lambda>c. JStr [c]) cs) t of
              Inl e \<Rightarrow> r = Inl e \<and> E s' | Inr t' \<Rightarrow> r = Inr () \<and> I s' t')"
  proof (rule for_each_rule [where R = "repr s0" and I = I and E = E and f = f
        and body = body])
    show "list_all2 (repr s0) (map (\<lambda>c. VStr [c]) cs) (map (\<lambda>c. JStr [c]) cs)"
      unfolding list_all2_map1 list_all2_map2 by (simp add: list_all2_same)
    show "I s t" by fact
  next
    fix x j s t assume "repr s0 x j" "I s t"
    then show "\<exists>r s'. body x s = Some (r, s') \<and>
        (case f j t of Inl e \<Rightarrow> r = Inl e \<and> E s' | Inr t' \<Rightarrow> r = Inr () \<and> I s' t')"
      by (rule step)
  qed
  then show ?thesis by (simp add: JStr v for_in_def)
next
  case JNull
  with assms(1) show ?thesis by (simp add: for_in_def)
next
  case (JBool b)
  with assms(1) show ?thesis by (simp add: for_in_def)
next
  case (JInt i)
  with assms(1) show ?thesis by (simp add: for_in_def)
next
  case (JFloat x)
  with assms(1) show ?thesis by (simp add: for_in_def)
qed

lemma main_loop_loopf:
  "main_loop js t =
     loopf (\<lambda>record t. case main_row record of Inl e \<Rightarrow> Inl e | Inr r \<Rightarrow> Inr (t @ [r])) js t"
  by (induction js arbitrary: t) (simp_all split: sum.splits)

lemma entries_loop_loopf:
  "entries_loop display info js t =
     loopf (\<lambda>entry rows. case display entry of
              Inl e \<Rightarrow> Inl e
            | Inr u \<Rightarrow> Inr (rows @ [dict_update (dict_copy info) u])) js t"
  by (induction js arbitrary: t) (simp_all split: sum.splits)

lemma records_loop_loopf:
  "records_loop field display js t =
     loopf (\<lambda>record rows.
              case user_info record of
                Inl e \<Rightarrow> Inl e
              | Inr info \<Rightarrow>
                  (case then_iter (get record field (JArr [])) of
                     Inl e \<Rightarrow> Inl e
                   | Inr entries \<Rightarrow> entries_loop display info entries rows)) js t"
  by (induction js arbitrary: t) (simp_all split: sum.splits)

lemma items_repr_keys: "items_repr s its row \<Longrightarrow> fst ` set its = fst ` set row"
  unfolding items_repr_def
  by (induction its row rule: list_all2_induct) auto

lemma dict_set_repr:
  assumes "items_repr s its row" "repr s x j"
  shows "items_repr s (dict_set its k x) (dict_set row k j)"
proof (cases "k \<in> fst ` set row")
  case True
  with items_repr_keys [OF assms(1)] have "k \<in> fst ` set its" by simp
  moreover have "list_all2 (\<lambda>kv kj. fst kv = fst kj \<and> repr s (snd kv) (snd kj))
      (map (\<lambda>kv. if fst kv = k then (k, x) else kv) its)
      (map (\<lambda>kv. if fst kv = k then (k, j) else kv) row)"
    unfolding list_all2_map1 list_all2_map2
    by (rule list_all2_mono [OF assms(1) [unfolded items_repr_def]]) (simp add: assms(2))
  ultimately show ?thesis using True by (simp add: dict_set_def items_repr_def)
next
  case False
  with items_repr_keys [OF assms(1)] have "k \<notin> fst ` set its" by simp
  with False assms show ?thesis
    by (simp add: dict_set_def items_repr_def list_all2_appendI)
qed

lemma dict_update_repr:
  assumes "items_repr s u u'" "items_repr s its row"
  shows "items_repr s (dict_update its u) (dict_update row u')"
  using assms(1) [unfolded items_repr_def] assms(2)
proof (induction u u' arbitrary: its row rule: list_all2_induct)
  case Nil
  then show ?case by (simp add: dict_update_def)
next
  case (Cons kv u kj u')
  from Cons.hyps(1) Cons.prems
  have "items_repr s (dict_set its (fst kv) (snd kv)) (dict_set row (fst kj) (snd kj))"
    by (simp add: dict_set_repr)
  from Cons.IH [OF this] show ?case by (simp add: dict_update_def)
qed


lemma prefix_append_ext: "prefix s0 s \<Longrightarrow> prefix s0 (s @ ext)"
  by (auto simp: prefix_def)

lemma prefix_update:
  assumes "prefix s0 s" "length s0 \<le> a"
  shows "prefix s0 (s[a := x])"
proof -
  from assms(1) obtain ext where "s = s0 @ ext" by (auto simp: prefix_def)
  with assms(2) show ?thesis by (simp add: list_update_append)
qed

lemma rows_inv_extend:
  assumes "rows_inv s0 s ra t"
  shows "rows_inv s0 (s @ ext) ra t"
proof -
  from assms obtain refs where
    p: "prefix s0 s" "length s0 \<le> ra" "ra < length s" and
    r: "s ! ra = OList refs"
       "list_all2 (\<lambda>v row. \<exists>a its. v = VRef a \<and> a < length s \<and> a \<noteq> ra \<and>
                     s ! a = ODict its \<and> items_repr s0 its row) refs t"
    unfolding rows_inv_def by blast
  have "list_all2 (\<lambda>v row. \<exists>a its. v = VRef a \<and> a < length (s @ ext) \<and> a \<noteq> ra \<and>
                     (s @ ext) ! a = ODict its \<and> items_repr s0 its row) refs t"
    by (rule list_all2_mono [OF r(2)]) (auto simp: nth_append)
  with p r(1) show ?thesis
    unfolding rows_inv_def by (auto simp: nth_append prefix_append_ext)
qed

lemma rows_inv_append:
  assumes "rows_inv s0 s ra t" "a < length s" "a \<noteq> ra" "s ! a = ODict its"
    "items_repr s0 its row" "s ! ra = OList refs"
  shows "rows_inv s0 (s[ra := OList (refs @ [VRef a])]) ra (t @ [row])"
proof -
  let ?s = "s[ra := OList (refs @ [VRef a])]"
  from assms(1,6) have
    p: "prefix s0 s" "length s0 \<le> ra" "ra < length s" and
    r: "list_all2 (\<lambda>v row. \<exists>a its. v = VRef a \<and> a < length s \<and> a \<noteq> ra \<and>
                     s ! a = ODict its \<and> items_repr s0 its row) refs t"
    unfolding rows_inv_def by auto
  have l1: "list_all2 (\<lambda>v row. \<exists>a its. v = VRef a \<and> a < length ?s \<and> a \<noteq> ra \<and>
                     ?s ! a = ODict its \<and> items_repr s0 its row) refs t"
    by (rule list_all2_mono [OF r]) auto
  have "?s ! a = ODict its" "a < length ?s" using assms(2-4) by simp_all
  with assms(3,5) have l2: "list_all2 (\<lambda>v row. \<exists>a its. v = VRef a \<and> a < length ?s \<and>
      a \<noteq> ra \<and> ?s ! a = ODict its \<and> items_repr s0 its row) [VRef a] [row]"
    by simp
  note la = list_all2_appendI [OF l1 l2]
  have n: "?s ! ra = OList (refs @ [VRef a])" using p(3) by simp
  have l: "ra < length ?s" using p(3) by simp
  show ?thesis
    unfolding rows_inv_def
    by (intro conjI exI [of _ "refs @ [VRef a]"])
       (rule prefix_update [OF p(1,2)] p(2) l n la)+
qed

lemma rows_inv_repr:
  assumes "rows_inv s0 s ra t"
  shows "repr s (VRef ra) (JArr (map JObj t))"
proof -
  from assms obtain refs where
    p: "prefix s0 s" "ra < length s" and
    r: "s ! ra = OList refs"
       "list_all2 (\<lambda>v row. \<exists>a its. v = VRef a \<and> a < length s \<and> a \<noteq> ra \<and>
                     s ! a = ODict its \<and> items_repr s0 its row) refs t"
    unfolding rows_inv_def by blast
  have "list_all2 (\<lambda>v row. repr s v (JObj row)) refs t"
  proof (rule list_all2_mono [OF r(2)])
    fix v row
    assume "\<exists>a its. v = VRef a \<and> a < length s \<and> a \<noteq> ra \<and>
                     s ! a = ODict its \<and> items_repr s0 its row"
    then obtain a its where a: "v = VRef a" "a < length s" "s ! a = ODict its"
      "items_repr s0 its row" by blast
    from items_repr_mono [OF a(4) p(1)] have "items_repr s its row" .
    with a(1-3) show "repr s v (JObj row)" by (simp add: items_repr_def)
  qed
  then have "list_all2 (repr s) refs (map JObj t)"
    by (simp add: list_all2_map2)
  with p(2) r(1) show ?thesis by simp
qed


lemma entry_step:
  assumes disp: "disp_rel s0 (display entry) r'"
    and inv: "rows_inv s0 s ra t" "ia < length s" "ia \<noteq> ra" "s ! ia = ODict iits"
    and info: "items_repr s0 iits info"
  shows "\<exists>r s'. entry_body display (VRef ia) (VRef ra) entry s = Some (r, s') \<and>
           (case (case r' of Inl e \<Rightarrow> Inl e
                  | Inr u \<Rightarrow> Inr (t @ [dict_update (dict_copy info) u])) of
              Inl e \<Rightarrow> r = Inl e \<and> prefix s0 s'
            | Inr t' \<Rightarrow> r = Inr () \<and>
                (rows_inv s0 s' ra t' \<and> ia < length s' \<and> s' ! ia = ODict iits))"
proof -
  from inv(1) obtain refs where p: "prefix s0 s" and ra: "ra < length s" "length s0 \<le> ra"
    and refs: "s ! ra = OList refs"
    unfolding rows_inv_def by blast
  let ?s1 = "s @ [ODict iits]"
  have c: "copy_st (VRef ia) s = (Inr (VRef (length s)), ?s1)"
    using inv(2,4) by (simp add: copy_st_def new_dict_def dict_copy_def)
  have p1: "prefix s0 ?s1" by (rule prefix_append_ext [OF p])
  from disp p1 obtain ext where
    d: "case r' of
          Inl e \<Rightarrow> display entry ?s1 = (Inl e, ?s1 @ ext)
        | Inr row \<Rightarrow>
            (\<exists>its. display entry ?s1 =
                     (Inr (VRef (length ?s1 + length ext)), ?s1 @ ext @ [ODict its]) \<and>
                   items_repr s0 its row)"
    unfolding disp_rel_def by blast
  show ?thesis
  proof (cases r')
    case (Inl e)
    with d have "display entry ?s1 = (Inl e, ?s1 @ ext)" by simp
    with c have "entry_body display (VRef ia) (VRef ra) entry s = Some (Inl e, ?s1 @ ext)"
      by (simp only: entry_body_def bind_c_def prod.case sum.case)
    moreover have "prefix s0 (?s1 @ ext)" by (rule prefix_append_ext [OF p1])
    ultimately show ?thesis using Inl by simp
  next
    case (Inr u)
    with d obtain uits where
      u: "display entry ?s1 = (Inr (VRef (length ?s1 + length ext)), ?s1 @ ext @ [ODict uits])"
         "items_repr s0 uits u" by auto
    let ?s2 = "?s1 @ ext @ [ODict uits]"
    let ?row = "dict_update iits uits"
    let ?s3 = "s @ ([ODict ?row] @ ext @ [ODict uits])"
    let ?s4 = "?s3[ra := OList (refs @ [VRef (length s)])]"
    have a1: "dict_at ?s2 (VRef (length s)) = Some iits"
      by (simp add: nth_append)
    have a2: "dict_at ?s2 (VRef (length ?s1 + length ext)) = Some uits"
      by (simp add: nth_append)
    have s3: "?s2[length s := ODict ?row] = ?s3"
      by (simp add: list_update_append)
    have up: "update_st (VRef (length s)) (VRef (length ?s1 + length ext)) ?s2 = (Inr (), ?s3)"
      unfolding update_st.simps a1 a2 s3 by simp
    have l3: "list_at ?s3 (VRef ra) = Some refs"
      using ra refs by (simp add: nth_append)
    have ap: "append_st (VRef ra) (VRef (length s)) ?s3 = (Inr (), ?s4)"
      unfolding append_st.simps l3 by simp
    have run: "entry_body display (VRef ia) (VRef ra) entry s = Some (Inr (), ?s4)"
      by (simp only: entry_body_def bind_c_def c u(1) up ap prod.case sum.case)
    have i3: "rows_inv s0 ?s3 ra t" by (rule rows_inv_extend [OF inv(1)])
    have r3: "?s3 ! ra = OList refs" using ra refs by (simp add: nth_append)
    have "items_repr s0 ?row (dict_update (dict_copy info) u)"
      unfolding dict_copy_def by (rule dict_update_repr [OF u(2) info])
    moreover have "length s < length ?s3" "length s \<noteq> ra" "?s3 ! length s = ODict ?row"
      using ra by simp_all
    ultimately have i4: "rows_inv s0 ?s4 ra (t @ [dict_update (dict_copy info) u])"
      using rows_inv_append [OF i3 _ _ _ _ r3] by blast
    have "ia < length ?s4" using inv(2) by simp
    moreover have "?s4 ! ia = ODict iits" using inv(2-4) by (simp add: nth_append)
    ultimately show ?thesis using run i4 Inr by simp
  qed
qed

lemma record_step:
  assumes disp: "\<And>v j. repr s0 v j \<Longrightarrow> disp_rel s0 (display v) (display' j)"
    and rec: "repr s0 record j"
    and inv: "rows_inv s0 s ra t"
  shows "\<exists>r s'. record_body field display (VRef ra) record s = Some (r, s') \<and>
           (case (case user_info j of
                    Inl e \<Rightarrow> Inl e
                  | Inr info \<Rightarrow>
                      (case then_iter (get j field (JArr [])) of
                         Inl e \<Rightarrow> Inl e
                       | Inr entries \<Rightarrow> entries_loop display' info entries t)) of
              Inl e \<Rightarrow> r = Inl e \<and> prefix s0 s'
            | Inr t' \<Rightarrow> r = Inr () \<and> rows_inv s0 s' ra t')"
proof -
  from inv have p: "prefix s0 s" and ra: "ra < length s" unfolding rows_inv_def by blast+
  from user_info_st_rel [OF rec] p obtain ext where
    ui: "case user_info j of
           Inl e \<Rightarrow> user_info_st record s = (Inl e, s @ ext)
         | Inr row \<Rightarrow>
             (\<exists>its. user_info_st record s =
                      (Inr (VRef (length s + length ext)), s @ ext @ [ODict its]) \<and>
                    items_repr s0 its row)"
    unfolding disp_rel_def by blast
  show ?thesis
  proof (cases "user_info j")
    case (Inl e)
    with ui have "user_info_st record s = (Inl e, s @ ext)" by simp
    then have "record_body field display (VRef ra) record s = Some (Inl e, s @ ext)"
      by (simp add: record_body_def)
    with Inl prefix_append_ext [OF p] show ?thesis by simp
  next
    case (Inr info)
    with ui obtain iits where
      u: "user_info_st record s = (Inr (VRef (length s + length ext)), s @ ext @ [ODict iits])"
      and info: "items_repr s0 iits info" by auto
    let ?ia = "length s + length ext"
    let ?s1 = "s @ ext @ [ODict iits]"
    let ?s2 = "?s1 @ [OList []]"
    have "is_object j" using Inr user_info_not_object [of j] by (cases "is_object j") simp_all
    then obtain d where j: "j = JObj d" by (cases j) simp_all
    have p1: "prefix s0 ?s1" using prefix_append_ext [OF p] by simp
    have p2: "prefix s0 ?s2" by (rule prefix_append_ext [OF p1])
    from repr_object [OF rec [unfolded j] p1] obtain its where
      its: "dict_at ?s1 record = Some its" "items_repr s0 its d" by blast
    have its2: "dict_at ?s2 record = Some its"
      by (rule dict_at_prefix [OF _ its(1)]) simp
    let ?y = "case map_of its field of Some y \<Rightarrow> y | None \<Rightarrow> VRef (length ?s1)"
    have g: "get_st record field new_list ?s1 = (Inr ?y, ?s2)"
      by (simp only: get_st_def its(1) new_list_def its2 option.case prod.case sum.case)
    let ?body = "entry_body display (VRef ?ia) (VRef ra)"
    have run: "record_body field display (VRef ra) record s = for_in ?y ?body ?s2"
      by (simp only: record_body_def u g prod.case sum.case)
    have i2: "rows_inv s0 ?s2 ra t"
      using rows_inv_extend [OF inv, of "ext @ [ODict iits] @ [OList []]"] by simp
    have ia: "?ia < length ?s2" "?ia \<noteq> ra" "?s2 ! ?ia = ODict iits"
      using ra by (simp_all add: nth_append)
    show ?thesis
    proof (cases "map_of d field")
      case None
      with items_repr_map_of [OF its(2), of field] have "map_of its field = None" by simp
      then have y: "?y = VRef (length ?s1)" by simp
      have l: "list_at ?s2 (VRef (length ?s1)) = Some []" by (simp add: nth_append)
      have "for_list ?body (VRef (length ?s1)) 0 ?s2 = Some (Inr (), ?s2)"
        by (subst for_list.simps) (simp only: l option.case list.size if_False less_irrefl)
      moreover have "for_in (VRef (length ?s1)) ?body ?s2 =
          for_list ?body (VRef (length ?s1)) 0 ?s2"
        by (simp add: for_in_def nth_append)
      ultimately have "record_body field display (VRef ra) record s = Some (Inr (), ?s2)"
        using run y by simp
      moreover have "then_iter (get j field (JArr [])) = Inr []"
        using None by (simp add: j dict_get_def)
      ultimately show ?thesis using Inr i2 by simp
    next
      case (Some jy)
      with items_repr_map_of [OF its(2), of field] obtain y where
        y: "map_of its field = Some y" "repr s0 y jy" by auto
      then have yy: "?y = y" by simp
      let ?I = "\<lambda>s t. rows_inv s0 s ra t \<and> ?ia < length s \<and> s ! ?ia = ODict iits"
      let ?f = "\<lambda>entry rows. case display' entry of
                  Inl e \<Rightarrow> Inl e
                | Inr u \<Rightarrow> Inr (rows @ [dict_update (dict_copy info) u])"
      have "\<exists>r s'. for_in y ?body ?s2 = Some (r, s') \<and>
           (case iter jy of
              Inl e \<Rightarrow> r = Inl e \<and> s' = ?s2
            | Inr js \<Rightarrow>
                (case loopf ?f js t of
                   Inl e \<Rightarrow> r = Inl e \<and> prefix s0 s'
                 | Inr t' \<Rightarrow> r = Inr () \<and> ?I s' t'))"
      proof (rule for_in_rule [where ?s0.0 = s0 and I = ?I and E = "prefix s0" and f = ?f])
        show "repr s0 y jy" by fact
        show "?I ?s2 t" using i2 ia by blast
      next
        fix x je s' t'
        assume x: "repr s0 x je" and i: "?I s' t'"
        from entry_step [where display = display and entry = x and r' = "display' je"
            and s = s' and t = t', OF disp [OF x] _ _ ia(2) _ info] i
        show "\<exists>r s''. ?body x s' = Some (r, s'') \<and>
          (case ?f je t' of
             Inl e \<Rightarrow> r = Inl e \<and> prefix s0 s''
           | Inr t'' \<Rightarrow> r = Inr () \<and> ?I s'' t'')"
          by blast
      next
        fix s' t' assume "?I s' t'"
        then show "prefix s0 s'" unfolding rows_inv_def by blast
      qed
      then obtain r s' where
        f: "for_in y ?body ?s2 = Some (r, s')"
           "case iter jy of
              Inl e \<Rightarrow> r = Inl e \<and> s' = ?s2
            | Inr js \<Rightarrow>
                (case loopf ?f js t of
                   Inl e \<Rightarrow> r = Inl e \<and> prefix s0 s'
                 | Inr t' \<Rightarrow> r = Inr () \<and> ?I s' t')" by blast
      have v: "then_iter (get j field (JArr [])) = iter jy"
        using Some by (simp add: j dict_get_def)
      have run': "record_body field display (VRef ra) record s = Some (r, s')"
        using run yy f(1) by simp
      show ?thesis
      proof (cases "iter jy")
        case (Inl e)
        with f(2) have "r = Inl e" "s' = ?s2" by simp_all
        with run' p2 Inr v Inl show ?thesis by simp
      next
        case (Inr js)
        note js = this
        show ?thesis
        proof (cases "loopf ?f js t")
          case (Inl e)
          with f(2) js have "r = Inl e" "prefix s0 s'" by simp_all
          with run' \<open>user_info j = Inr info\<close> v js Inl show ?thesis
            by (simp add: entries_loop_loopf)
        next
          case (Inr t')
          with f(2) js have "r = Inr ()" "rows_inv s0 s' ra t'" by simp_all
          with run' \<open>user_info j = Inr info\<close> v js Inr show ?thesis
            by (simp add: entries_loop_loopf)
        qed
      qed
    qed
  qed
qed


lemma main_step:
  assumes rec: "repr s0 record j" and inv: "rows_inv s0 s ra t"
  shows "\<exists>r s'. main_body (VRef ra) record s = Some (r, s') \<and>
           (case (case main_row j of Inl e \<Rightarrow> Inl e | Inr r \<Rightarrow> Inr (t @ [r])) of
              Inl e \<Rightarrow> r = Inl e \<and> prefix s0 s'
            | Inr t' \<Rightarrow> r = Inr () \<and> rows_inv s0 s' ra t')"
proof -
  from inv obtain refs where p: "prefix s0 s" and ra: "ra < length s"
    and refs: "s ! ra = OList refs"
    unfolding rows_inv_def by blast
  from main_row_st_rel [OF rec] p obtain ext where
    m: "case main_row j of
          Inl e \<Rightarrow> main_row_st record s = (Inl e, s @ ext)
        | Inr row \<Rightarrow>
            (\<exists>its. main_row_st record s =
                     (Inr (VRef (length s + length ext)), s @ ext @ [ODict its]) \<and>
                   items_repr s0 its row)"
    unfolding disp_rel_def by blast
  show ?thesis
  proof (cases "main_row j")
    case (Inl e)
    with m have "main_row_st record s = (Inl e, s @ ext)" by simp
    then have "main_body (VRef ra) record s = Some (Inl e, s @ ext)"
      by (simp only: main_body_def bind_c_def prod.case sum.case)
    with Inl prefix_append_ext [OF p] show ?thesis by simp
  next
    case (Inr row)
    with m obtain its where
      u: "main_row_st record s = (Inr (VRef (length s + length ext)), s @ ext @ [ODict its])"
      and its: "items_repr s0 its row" by auto
    let ?a = "length s + length ext"
    let ?s1 = "s @ ext @ [ODict its]"
    let ?s2 = "?s1[ra := OList (refs @ [VRef ?a])]"
    have l: "list_at ?s1 (VRef ra) = Some refs" using ra refs by (simp add: nth_append)
    have ap: "append_st (VRef ra) (VRef ?a) ?s1 = (Inr (), ?s2)"
      unfolding append_st.simps l by simp
    have run: "main_body (VRef ra) record s = Some (Inr (), ?s2)"
      by (simp only: main_body_def bind_c_def u ap prod.case sum.case)
    have i1: "rows_inv s0 ?s1 ra t" by (rule rows_inv_extend [OF inv])
    have r1: "?s1 ! ra = OList refs" using ra refs by (simp add: nth_append)
    have "?a < length ?s1" "?a \<noteq> ra" "?s1 ! ?a = ODict its"
      using ra by (simp_all add: nth_append)
    then have "rows_inv s0 ?s2 ra (t @ [row])"
      using rows_inv_append [OF i1 _ _ _ its r1] by blast
    with run Inr show ?thesis by simp
  qed
qed

lemma build_st_rule:
  assumes step: "\<And>x j s' t. repr s x j \<Longrightarrow> rows_inv s s' (length s) t \<Longrightarrow>
      \<exists>r s''. body (VRef (length s)) x s' = Some (r, s'') \<and>
        (case f j t of
           Inl e \<Rightarrow> r = Inl e \<and> prefix s s''
         | Inr t' \<Rightarrow> r = Inr () \<and> rows_inv s s'' (length s) t')"
    and data: "repr s data (JArr records)"
  shows "\<exists>r s'. build_st body data s = Some (r, s') \<and> prefix s s' \<and>
           returns_table s' r (loopf f records [])"
proof -
  let ?n = "length s"
  let ?s1 = "s @ [OList []]"
  have i1: "rows_inv s ?s1 ?n []"
    unfolding rows_inv_def by simp
  have "\<exists>r s'. for_in data (body (VRef ?n)) ?s1 = Some (r, s') \<and>
           (case iter (JArr records) of
              Inl e \<Rightarrow> r = Inl e \<and> s' = ?s1
            | Inr js \<Rightarrow>
                (case loopf f js [] of
                   Inl e \<Rightarrow> r = Inl e \<and> prefix s s'
                 | Inr t' \<Rightarrow> r = Inr () \<and> rows_inv s s' ?n t'))"
  proof (rule for_in_rule [where ?s0.0 = s and I = "\<lambda>s' t. rows_inv s s' ?n t"
        and E = "prefix s" and f = f])
    show "repr s data (JArr records)" by fact
    show "rows_inv s ?s1 ?n []" by fact
  next
    fix x j s' t
    assume "repr s x j" "rows_inv s s' ?n t"
    then show "\<exists>r s''. body (VRef ?n) x s' = Some (r, s'') \<and>
        (case f j t of
           Inl e \<Rightarrow> r = Inl e \<and> prefix s s''
         | Inr t' \<Rightarrow> r = Inr () \<and> rows_inv s s'' ?n t')"
      by (rule step)
  next
    fix s' t assume "rows_inv s s' ?n t"
    then show "prefix s s'" unfolding rows_inv_def by blast
  qed
  then obtain r s' where
    f: "for_in data (body (VRef ?n)) ?s1 = Some (r, s')"
       "case loopf f records [] of
          Inl e \<Rightarrow> r = Inl e \<and> prefix s s'
        | Inr t' \<Rightarrow> r = Inr () \<and> rows_inv s s' ?n t'"
    by auto
  show ?thesis
  proof (cases "loopf f records []")
    case (Inl e)
    with f(2) have "r = Inl e" "prefix s s'" by simp_all
    with f(1) Inl show ?thesis
      by (simp add: build_st_def new_list_def returns_table_def)
  next
    case (Inr t')
    with f(2) have r: "r = Inr ()" and i: "rows_inv s s' ?n t'" by simp_all
    from i have "prefix s s'" unfolding rows_inv_def by blast
    with f(1) r Inr rows_inv_repr [OF i] show ?thesis
      by (simp add: build_st_def new_list_def returns_table_def)
  qed
qed

lemma main_builder_refines:
  assumes "repr s data (JArr records)"
  shows "\<exists>r s'. create_main_metrics_sheet_st data s = Some (r, s') \<and> prefix s s' \<and>
           returns_table s' r (create_main_metrics_sheet records)"
  unfolding create_main_metrics_sheet_st_def create_main_metrics_sheet_def main_loop_loopf
proof (rule build_st_rule)
  fix x j s' t
  assume "repr s x j" "rows_inv s s' (length s) t"
  then show "\<exists>r s''. main_body (VRef (length s)) x s' = Some (r, s'') \<and>
      (case (case main_row j of Inl e \<Rightarrow> Inl e | Inr r \<Rightarrow> Inr (t @ [r])) of
         Inl e \<Rightarrow> r = Inl e \<and> prefix s s''
       | Inr t' \<Rightarrow> r = Inr () \<and> rows_inv s s'' (length s) t')"
    by (rule main_step)
next
  show "repr s data (JArr records)" by fact
qed

lemma breakdown_builder_refines:
  assumes disp: "\<And>s0 v j. repr s0 v j \<Longrightarrow> disp_rel s0 (display v) (display' j)"
    and "repr s data (JArr records)"
  shows "\<exists>r s'. build_st (record_body field display) data s = Some (r, s') \<and> prefix s s' \<and>
           returns_table s' r (records_loop field display' records [])"
  unfolding records_loop_loopf
proof (rule build_st_rule)
  fix x j s' t
  assume x: "repr s x j" and i: "rows_inv s s' (length s) t"
  show "\<exists>r s''. record_body field display (VRef (length s)) x s' = Some (r, s'') \<and>
      (case (case user_info j of
               Inl e \<Rightarrow> Inl e
             | Inr info \<Rightarrow>
                 (case then_iter (get j field (JArr [])) of
                    Inl e \<Rightarrow> Inl e
                  | Inr entries \<Rightarrow> entries_loop display' info entries t)) of
         Inl e \<Rightarrow> r = Inl e \<and> prefix s s''
       | Inr t' \<Rightarrow> r = Inr () \<and> rows_inv s s'' (length s) t')"
    by (rule record_step [where display = display and display' = display', OF disp x i])
next
  show "repr s data (JArr records)" by fact
qed

lemma sheet_builders_refine:
  assumes "(builder_st, builder) \<in> set sheet_builders_st" "repr s data (JArr records)"
  shows "\<exists>r s'. builder_st data s = Some (r, s') \<and> prefix s s' \<and>
           returns_table s' r (builder records)"
proof -
  from assms(1) consider
      "builder_st = create_main_metrics_sheet_st" "builder = create_main_metrics_sheet"
    | "builder_st = create_ide_totals_sheet_st" "builder = create_ide_totals_sheet"
    | "builder_st = create_feature_totals_sheet_st" "builder = create_feature_totals_sheet"
    | "builder_st = create_language_feature_sheet_st" "builder = create_language_feature_sheet"
    | "builder_st = create_language_model_sheet_st" "builder = create_language_model_sheet"
    | "builder_st = create_model_feature_sheet_st" "builder = create_model_feature_sheet"
    unfolding sheet_builders_st_def
    by (simp only: list.set insert_iff empty_iff prod.inject simp_thms) blast
  then show ?thesis
  proof cases
    case 1
    then show ?thesis using main_builder_refines [OF assms(2)] by simp
  next
    case 2
    then show ?thesis
      using breakdown_builder_refines [OF ide_display_st_rel assms(2)]
      by (simp add: create_ide_totals_sheet_st_def create_ide_totals_sheet_def)
  next
    case 3
    then show ?thesis
      using breakdown_builder_refines [OF feature_display_st_rel assms(2)]
      by (simp add: create_feature_totals_sheet_st_def create_feature_totals_sheet_def)
  next
    case 4
    then show ?thesis
      using breakdown_builder_refines [OF lang_feature_display_st_rel assms(2)]
      by (simp add: create_language_feature_sheet_st_def create_language_feature_sheet_def)
  next
    case 5
    then show ?thesis
      using breakdown_builder_refines [OF lang_model_display_st_rel assms(2)]
      by (simp add: create_language_model_sheet_st_def create_language_model_sheet_def)
  next
    case 6
    then show ?thesis
      using breakdown_builder_refines [OF model_feature_display_st_rel assms(2)]
      by (simp add: create_model_feature_sheet_st_def create_model_feature_sheet_def)
  qed
qed

text \<open>
  A run. On the list at address 1 of \<open>sample_store\<close>, whose one element is the dict at
  address 0, the main-metrics builder allocates its list at address 4 and one row dict at
  address 5, and leaves the four objects it was given as they were.
\<close>

lemma create_main_metrics_sheet_st_run:
  "create_main_metrics_sheet_st (VRef 1) sample_store =
     Some (Inr (VRef 4), sample_store @ [
       OList [VRef 5],
       ODict [(''Report Start'', VStr ''''), (''Report End'', VStr ''''), (''Day'', VStr ''''),
         (''Enterprise ID'', VStr ''''), (''User ID'', VStr ''''), (''User Login'', VStr ''''),
         (''User Initiated Interactions'', VInt 0), (''Code Generation Activity'', VInt 0),
         (''Code Acceptance Activity'', VInt 0), (''LOC Suggested to Add'', VInt 0),
         (''LOC Suggested to Delete'', VInt 0), (''LOC Added'', VInt 5),
         (''LOC Deleted'', VInt 0), (''Used Agent'', VBool False),
         (''Used Chat'', VBool False)]])"
  by code_simp

section \<open>The claims\<close>

text \<open>
  Claim C1. Let \<open>builder\<close> be one of the five breakdown builders (IDE, feature,
  language/feature, language/model, model/feature) and \<open>field\<close> the nested field it
  iterates. On records that are objects whose \<open>field\<close> is absent or an array of entries
  the builder accepts, the builder returns a table. Whenever it returns a table, the number
  of rows is the sum over the records of the length of the record's nested list (0 when the
  field is absent), and the rows fall into consecutive groups, one per record in input
  order, the group of a record having one row per entry of its nested list, each row
  carrying the record's user login and day in the columns \<open>User Login\<close> and \<open>Day\<close>.
\<close>

theorem breakdown_row_count_and_carry_over:
  assumes "(field, entry_ok, builder) \<in> set breakdown_builders"
  shows "((\<forall>r\<in>set data. record_ok field entry_ok r) \<longrightarrow> (\<exists>rows. builder data = Inr rows)) \<and>
         (\<forall>rows. builder data = Inr rows \<longrightarrow>
            length rows = (\<Sum>r\<leftarrow>data. length (nested_list field r)) \<and>
            (\<exists>rss. rows = concat rss \<and> length rss = length data \<and>
               (\<forall>i<length data. \<exists>d. data ! i = JObj d \<and>
                  length (rss ! i) = length (nested_list field (data ! i)) \<and>
                  (\<forall>row\<in>set (rss ! i).
                     map_of row ''User Login'' = Some (dict_get d ''user_login'' (JStr '''')) \<and>
                     map_of row ''Day'' = Some (dict_get d ''day'' (JStr ''''))))))"
proof -
  from breakdown_builders_cases [OF assms] obtain display where
    b: "builder = (\<lambda>data. records_loop field display data [])"
    and ok: "display_ok entry_ok display"
    by blast
  from ok have keys: "\<And>e u. display e = Inr u \<Longrightarrow>
       is_object e \<and> ''User Login'' \<notin> fst ` set u \<and> ''Day'' \<notin> fst ` set u"
    and total: "\<And>e. entry_ok e \<Longrightarrow> \<exists>u. display e = Inr u"
    unfolding display_ok_def by blast+
  have "(\<forall>r\<in>set data. record_ok field entry_ok r) \<longrightarrow> (\<exists>rows. builder data = Inr rows)"
    unfolding b using records_loop_total [of data field entry_ok display "[]"] total by blast
  moreover have "length rows = (\<Sum>r\<leftarrow>data. length (nested_list field r)) \<and>
            (\<exists>rss. rows = concat rss \<and> length rss = length data \<and>
               (\<forall>i<length data. \<exists>d. data ! i = JObj d \<and>
                  length (rss ! i) = length (nested_list field (data ! i)) \<and>
                  (\<forall>row\<in>set (rss ! i).
                     map_of row ''User Login'' = Some (dict_get d ''user_login'' (JStr '''')) \<and>
                     map_of row ''Day'' = Some (dict_get d ''day'' (JStr '''')))))"
    if "builder data = Inr rows" for rows
    using that keys unfolding b by (rule records_loop_props)
  ultimately show ?thesis by blast
qed

text \<open>The theorem at the IDE builder, on two records with two entries and none.\<close>

theorem breakdown_row_count_and_carry_over_witness:
  "(''totals_by_ide'', ide_entry_ok, create_ide_totals_sheet) \<in> set breakdown_builders \<and>
   list_all (record_ok ''totals_by_ide'' ide_entry_ok)
     [JObj [(''user_login'', JStr ''alice''),
            (''totals_by_ide'', JArr [JObj [(''ide'', JStr ''vscode'')], JObj []])],
      JObj [(''day'', JStr ''2024-01-01'')]] \<and>
   (\<exists>rows. create_ide_totals_sheet
       [JObj [(''user_login'', JStr ''alice''),
              (''totals_by_ide'', JArr [JObj [(''ide'', JStr ''vscode'')], JObj []])],
        JObj [(''day'', JStr ''2024-01-01'')]] = Inr rows \<and> length rows = 2)"
proof -
  let ?data = "[JObj [(''user_login'', JStr ''alice''),
            (''totals_by_ide'', JArr [JObj [(''ide'', JStr ''vscode'')], JObj []])],
      JObj [(''day'', JStr ''2024-01-01'')]]"
  have mem: "(''totals_by_ide'', ide_entry_ok, create_ide_totals_sheet) \<in> set breakdown_builders"
    by (simp add: breakdown_builders_def)
  have ok: "list_all (record_ok ''totals_by_ide'' ide_entry_ok) ?data"
    by (simp add: record_ok_def ide_entry_ok_def dict_get_def)
  have len: "(\<Sum>r\<leftarrow>?data. length (nested_list ''totals_by_ide'' r)) = 2"
    by (simp add: nested_list_def)
  from ok have "\<forall>r\<in>set ?data. record_ok ''totals_by_ide'' ide_entry_ok r"
    unfolding list_all_iff .
  with breakdown_row_count_and_carry_over [OF mem, of ?data]
  obtain rows where "create_ide_totals_sheet ?data = Inr rows"
    "length rows = (\<Sum>r\<leftarrow>?data. length (nested_list ''totals_by_ide'' r))"
    by blast
  with len have "\<exists>rows. create_ide_totals_sheet ?data = Inr rows \<and> length rows = 2"
    by simp
  with mem ok show ?thesis by blast
qed

text \<open>
  Claim C10. In the IDE builder the columns \<open>Plugin Version\<close> and \<open>IDE Version\<close> are read
  through a second level of nesting: for the row built from an entry they hold
  \<^verbatim>\<open>entry.last_known_plugin_version.plugin_version\<close> and
  \<^verbatim>\<open>entry.last_known_ide_version.ide_version\<close>, each \<^verbatim>\<open>""\<close> when the nested object or
  its inner field is absent. The rows of the table are, in order, those of the entries of
  all records; and the display of an entry returns exactly when the entry is an object
  whose two nested values are absent or objects.
\<close>

theorem ide_version_columns:
  "(ide_entry_ok entry \<longleftrightarrow> (\<exists>u. ide_display entry = Inr u)) \<and>
   (\<forall>rows. create_ide_totals_sheet data = Inr rows \<longrightarrow>
      length rows = length (concat (map (nested_list ''totals_by_ide'') data)) \<and>
      (\<forall>i<length rows. \<exists>pv iv.
         map_of (rows ! i) ''Plugin Version'' = Some pv \<and>
         nested_field (concat (map (nested_list ''totals_by_ide'') data) ! i)
           ''last_known_plugin_version'' ''plugin_version'' = Some pv \<and>
         map_of (rows ! i) ''IDE Version'' = Some iv \<and>
         nested_field (concat (map (nested_list ''totals_by_ide'') data) ! i)
           ''last_known_ide_version'' ''ide_version'' = Some iv))"
proof -
  let ?entries = "concat (map (nested_list ''totals_by_ide'') data)"
  have "ide_entry_ok entry \<longleftrightarrow> (\<exists>u. ide_display entry = Inr u)"
  proof (cases "ide_entry_ok entry")
    case True
    then show ?thesis using ide_display_total [of entry] by simp
  next
    case False
    then show ?thesis using ide_display_fails [of entry] by simp
  qed
  moreover have "length rows = length ?entries \<and>
      (\<forall>i<length rows. \<exists>pv iv.
         map_of (rows ! i) ''Plugin Version'' = Some pv \<and>
         nested_field (?entries ! i) ''last_known_plugin_version'' ''plugin_version'' = Some pv \<and>
         map_of (rows ! i) ''IDE Version'' = Some iv \<and>
         nested_field (?entries ! i) ''last_known_ide_version'' ''ide_version'' = Some iv)"
    if "create_ide_totals_sheet data = Inr rows" for rows
  proof -
    have "is_object e" if "ide_display e = Inr u" for e u
      using that ide_display_Inr by blast
    with that have rel: "list_all2 (\<lambda>e row. \<exists>u a b. ide_display e = Inr u \<and>
           row = dict_update [(''User Login'', a), (''Day'', b)] u) ?entries rows"
      unfolding create_ide_totals_sheet_def by (rule records_loop_entries)
    then have len: "length ?entries = length rows" by (rule list_all2_lengthD)
    have "\<exists>pv iv.
         map_of (rows ! i) ''Plugin Version'' = Some pv \<and>
         nested_field (?entries ! i) ''last_known_plugin_version'' ''plugin_version'' = Some pv \<and>
         map_of (rows ! i) ''IDE Version'' = Some iv \<and>
         nested_field (?entries ! i) ''last_known_ide_version'' ''ide_version'' = Some iv"
      if "i < length rows" for i
    proof -
      from rel that len obtain u a b where u: "ide_display (?entries ! i) = Inr u"
        and r: "rows ! i = dict_update [(''User Login'', a), (''Day'', b)] u"
        unfolding list_all2_conv_all_nth by metis
      show ?thesis unfolding r using u by (rule ide_row_versions)
    qed
    with len show ?thesis by simp
  qed
  ultimately show ?thesis by blast
qed

text \<open>The theorem at an entry with a plugin version and an empty IDE version object.\<close>

theorem ide_version_columns_witness:
  "ide_entry_ok (JObj [(''last_known_plugin_version'', JObj [(''plugin_version'', JStr ''1.2'')])]) \<and>
   create_ide_totals_sheet
     [JObj [(''totals_by_ide'',
        JArr [JObj [(''last_known_plugin_version'', JObj [(''plugin_version'', JStr ''1.2'')]),
                    (''last_known_ide_version'', JObj [])]])]]
   = Inr [[(''User Login'', JStr ''''), (''Day'', JStr ''''), (''IDE'', JStr ''''),
           (''User Initiated Interactions'', JInt 0), (''Code Generation Activity'', JInt 0),
           (''Code Acceptance Activity'', JInt 0), (''LOC Suggested to Add'', JInt 0),
           (''LOC Suggested to Delete'', JInt 0), (''LOC Added'', JInt 0),
           (''LOC Deleted'', JInt 0), (''Plugin Version'', JStr ''1.2''),
           (''IDE Version'', JStr '''')]] \<and>
   nested_field (JObj [(''last_known_plugin_version'', JObj [(''plugin_version'', JStr ''1.2'')]),
                    (''last_known_ide_version'', JObj [])])
      ''last_known_plugin_version'' ''plugin_version'' = Some (JStr ''1.2'') \<and>
   (\<exists>u. ide_display
      (JObj [(''last_known_plugin_version'', JObj [(''plugin_version'', JStr ''1.2'')])]) = Inr u)"
proof -
  have ok: "ide_entry_ok
      (JObj [(''last_known_plugin_version'', JObj [(''plugin_version'', JStr ''1.2'')])])"
    by (simp add: ide_entry_ok_def dict_get_def)
  have run: "create_ide_totals_sheet
     [JObj [(''totals_by_ide'',
        JArr [JObj [(''last_known_plugin_version'', JObj [(''plugin_version'', JStr ''1.2'')]),
                    (''last_known_ide_version'', JObj [])]])]]
   = Inr [[(''User Login'', JStr ''''), (''Day'', JStr ''''), (''IDE'', JStr ''''),
           (''User Initiated Interactions'', JInt 0), (''Code Generation Activity'', JInt 0),
           (''Code Acceptance Activity'', JInt 0), (''LOC Suggested to Add'', JInt 0),
           (''LOC Suggested to Delete'', JInt 0), (''LOC Added'', JInt 0),
           (''LOC Deleted'', JInt 0), (''Plugin Version'', JStr ''1.2''),
           (''IDE Version'', JStr '''')]]"
    by (simp add: create_ide_totals_sheet_def user_info_def ide_display_def dict_get_def
        dict_update_def dict_set_def dict_copy_def)
  have nf: "nested_field
      (JObj [(''last_known_plugin_version'', JObj [(''plugin_version'', JStr ''1.2'')]),
             (''last_known_ide_version'', JObj [])])
      ''last_known_plugin_version'' ''plugin_version'' = Some (JStr ''1.2'')"
    by (simp add: nested_field_def)
  from ok ide_version_columns
    [of "JObj [(''last_known_plugin_version'', JObj [(''plugin_version'', JStr ''1.2'')])]" "[]"]
  have "\<exists>u. ide_display
      (JObj [(''last_known_plugin_version'', JObj [(''plugin_version'', JStr ''1.2'')])]) = Inr u"
    by (elim conjE) (erule iffD1)
  with ok run nf show ?thesis by (intro conjI)
qed

text \<open>
  Claim C2. The main-metrics builder returns a table exactly when every record is an
  object, and the table then has one row per record, in input order: row \<open>i\<close> is the row
  built from record \<open>i\<close>. A record with none of the fifteen fields that the builder reads
  gives the row whose numeric columns are 0, whose string columns are \<^verbatim>\<open>""\<close> and whose
  two boolean columns, \<open>Used Agent\<close> and \<open>Used Chat\<close>, are false.
\<close>

theorem main_metrics_rows:
  "((\<forall>r\<in>set data. is_object r) \<longleftrightarrow> (\<exists>rows. create_main_metrics_sheet data = Inr rows)) \<and>
   (\<forall>rows. create_main_metrics_sheet data = Inr rows \<longrightarrow>
      length rows = length data \<and>
      (\<forall>i<length data. main_row (data ! i) = Inr (rows ! i)) \<and>
      (\<forall>i<length data. \<forall>d.
         data ! i = JObj d \<and> (\<forall>k\<in>set main_fields. map_of d k = None) \<longrightarrow>
         rows ! i = [
           (''Report Start'', JStr ''''), (''Report End'', JStr ''''), (''Day'', JStr ''''),
           (''Enterprise ID'', JStr ''''), (''User ID'', JStr ''''), (''User Login'', JStr ''''),
           (''User Initiated Interactions'', JInt 0), (''Code Generation Activity'', JInt 0),
           (''Code Acceptance Activity'', JInt 0), (''LOC Suggested to Add'', JInt 0),
           (''LOC Suggested to Delete'', JInt 0), (''LOC Added'', JInt 0),
           (''LOC Deleted'', JInt 0), (''Used Agent'', JBool False),
           (''Used Chat'', JBool False)]))"
proof -
  have "(\<forall>r\<in>set data. is_object r) \<longleftrightarrow> (\<exists>rows. create_main_metrics_sheet data = Inr rows)"
  proof (cases "\<forall>r\<in>set data. is_object r")
    case True
    then show ?thesis
      unfolding create_main_metrics_sheet_def using main_loop_total [of data "[]"] by simp
  next
    case False
    then show ?thesis
      unfolding create_main_metrics_sheet_def using main_loop_fails [of data "[]"] by simp
  qed
  moreover have "length rows = length data \<and>
      (\<forall>i<length data. main_row (data ! i) = Inr (rows ! i)) \<and>
      (\<forall>i<length data. \<forall>d.
         data ! i = JObj d \<and> (\<forall>k\<in>set main_fields. map_of d k = None) \<longrightarrow>
         rows ! i = [
           (''Report Start'', JStr ''''), (''Report End'', JStr ''''), (''Day'', JStr ''''),
           (''Enterprise ID'', JStr ''''), (''User ID'', JStr ''''), (''User Login'', JStr ''''),
           (''User Initiated Interactions'', JInt 0), (''Code Generation Activity'', JInt 0),
           (''Code Acceptance Activity'', JInt 0), (''LOC Suggested to Add'', JInt 0),
           (''LOC Suggested to Delete'', JInt 0), (''LOC Added'', JInt 0),
           (''LOC Deleted'', JInt 0), (''Used Agent'', JBool False),
           (''Used Chat'', JBool False)])"
    if "create_main_metrics_sheet data = Inr rows" for rows
  proof -
    from that have rel: "list_all2 (\<lambda>r row. main_row r = Inr row) data rows"
      unfolding create_main_metrics_sheet_def main_loop_Inr by simp
    then have len: "length rows = length data" by (simp add: list_all2_lengthD)
    have nth: "main_row (data ! i) = Inr (rows ! i)" if "i < length data" for i
      using rel that by (simp add: list_all2_conv_all_nth)
    have "rows ! i = [
           (''Report Start'', JStr ''''), (''Report End'', JStr ''''), (''Day'', JStr ''''),
           (''Enterprise ID'', JStr ''''), (''User ID'', JStr ''''), (''User Login'', JStr ''''),
           (''User Initiated Interactions'', JInt 0), (''Code Generation Activity'', JInt 0),
           (''Code Acceptance Activity'', JInt 0), (''LOC Suggested to Add'', JInt 0),
           (''LOC Suggested to Delete'', JInt 0), (''LOC Added'', JInt 0),
           (''LOC Deleted'', JInt 0), (''Used Agent'', JBool False),
           (''Used Chat'', JBool False)]"
      if "i < length data" "data ! i = JObj d" "\<forall>k\<in>set main_fields. map_of d k = None" for i d
      using nth [OF that(1)] main_row_defaults [OF that(3)] unfolding that(2) by simp
    with len nth show ?thesis by blast
  qed
  ultimately show ?thesis by blast
qed

text \<open>The theorem on two records, the first with none of the fifteen fields.\<close>

theorem main_metrics_rows_witness:
  "list_all is_object [JObj [(''totals_by_ide'', JArr [])], JObj [(''day'', JStr ''2024-01-01'')]] \<and>
   (\<exists>rows. create_main_metrics_sheet
        [JObj [(''totals_by_ide'', JArr [])], JObj [(''day'', JStr ''2024-01-01'')]] = Inr rows \<and>
      length rows = 2 \<and>
      rows ! 0 = [
           (''Report Start'', JStr ''''), (''Report End'', JStr ''''), (''Day'', JStr ''''),
           (''Enterprise ID'', JStr ''''), (''User ID'', JStr ''''), (''User Login'', JStr ''''),
           (''User Initiated Interactions'', JInt 0), (''Code Generation Activity'', JInt 0),
           (''Code Acceptance Activity'', JInt 0), (''LOC Suggested to Add'', JInt 0),
           (''LOC Suggested to Delete'', JInt 0), (''LOC Added'', JInt 0),
           (''LOC Deleted'', JInt 0), (''Used Agent'', JBool False),
           (''Used Chat'', JBool False)])"
proof -
  let ?data = "[JObj [(''totals_by_ide'', JArr [])], JObj [(''day'', JStr ''2024-01-01'')]]"
  have objs: "list_all is_object ?data" by simp
  then have all: "\<forall>r\<in>set ?data. is_object r" unfolding list_all_iff .
  have none: "\<forall>k\<in>set main_fields. map_of [(''totals_by_ide'', JArr [])] k = None"
    by (simp add: main_fields_def)
  note inst = main_metrics_rows [of ?data]
  from inst all obtain rows where rows: "create_main_metrics_sheet ?data = Inr rows"
    by blast
  with inst have len: "length rows = length ?data"
    and dflt: "\<forall>i<length ?data. \<forall>d.
         ?data ! i = JObj d \<and> (\<forall>k\<in>set main_fields. map_of d k = None) \<longrightarrow>
         rows ! i = [
           (''Report Start'', JStr ''''), (''Report End'', JStr ''''), (''Day'', JStr ''''),
           (''Enterprise ID'', JStr ''''), (''User ID'', JStr ''''), (''User Login'', JStr ''''),
           (''User Initiated Interactions'', JInt 0), (''Code Generation Activity'', JInt 0),
           (''Code Acceptance Activity'', JInt 0), (''LOC Suggested to Add'', JInt 0),
           (''LOC Suggested to Delete'', JInt 0), (''LOC Added'', JInt 0),
           (''LOC Deleted'', JInt 0), (''Used Agent'', JBool False),
           (''Used Chat'', JBool False)]"
    by blast+
  have "0 < length ?data" "?data ! 0 = JObj [(''totals_by_ide'', JArr [])]" by simp_all
  with dflt none have "rows ! 0 = [
           (''Report Start'', JStr ''''), (''Report End'', JStr ''''), (''Day'', JStr ''''),
           (''Enterprise ID'', JStr ''''), (''User ID'', JStr ''''), (''User Login'', JStr ''''),
           (''User Initiated Interactions'', JInt 0), (''Code Generation Activity'', JInt 0),
           (''Code Acceptance Activity'', JInt 0), (''LOC Suggested to Add'', JInt 0),
           (''LOC Suggested to Delete'', JInt 0), (''LOC Added'', JInt 0),
           (''LOC Deleted'', JInt 0), (''Used Agent'', JBool False),
           (''Used Chat'', JBool False)]"
    by (elim allE [of _ 0] allE [of _ "[(''totals_by_ide'', JArr [])]"] impE)
      (assumption | rule conjI)+
  moreover from len have "length rows = 2" by simp
  ultimately show ?thesis using objs rows
    by (intro conjI exI [of _ rows]) assumption+
qed

text \<open>
  Claim C7. For the input list
  \<^verbatim>\<open>[{"day":"2024-01-01","user_login":"alice","totals_by_ide":[{"ide":"vscode","loc_added_sum":5}]}]\<close>
  the main-metrics builder returns exactly one row, with \<open>LOC Added\<close> 0 (the record has no
  \<^verbatim>\<open>loc_added_sum\<close> of its own), and the IDE builder returns exactly one row, with \<open>IDE\<close>
  \<^verbatim>\<open>"vscode"\<close>, \<open>LOC Added\<close> 5, \<open>User Login\<close> \<^verbatim>\<open>"alice"\<close> and \<open>Day\<close> \<^verbatim>\<open>"2024-01-01"\<close>.
  Both tables are given in full.
\<close>

theorem spec_example:
  "create_main_metrics_sheet
     [JObj [(''day'', JStr ''2024-01-01''), (''user_login'', JStr ''alice''),
            (''totals_by_ide'', JArr [JObj [(''ide'', JStr ''vscode''), (''loc_added_sum'', JInt 5)]])]]
   = Inr [[(''Report Start'', JStr ''''), (''Report End'', JStr ''''),
           (''Day'', JStr ''2024-01-01''), (''Enterprise ID'', JStr ''''), (''User ID'', JStr ''''),
           (''User Login'', JStr ''alice''), (''User Initiated Interactions'', JInt 0),
           (''Code Generation Activity'', JInt 0), (''Code Acceptance Activity'', JInt 0),
           (''LOC Suggested to Add'', JInt 0), (''LOC Suggested to Delete'', JInt 0),
           (''LOC Added'', JInt 0), (''LOC Deleted'', JInt 0), (''Used Agent'', JBool False),
           (''Used Chat'', JBool False)]] \<and>
   create_ide_totals_sheet
     [JObj [(''day'', JStr ''2024-01-01''), (''user_login'', JStr ''alice''),
            (''totals_by_ide'', JArr [JObj [(''ide'', JStr ''vscode''), (''loc_added_sum'', JInt 5)]])]]
   = Inr [[(''User Login'', JStr ''alice''), (''Day'', JStr ''2024-01-01''),
           (''IDE'', JStr ''vscode''), (''User Initiated Interactions'', JInt 0),
           (''Code Generation Activity'', JInt 0), (''Code Acceptance Activity'', JInt 0),
           (''LOC Suggested to Add'', JInt 0), (''LOC Suggested to Delete'', JInt 0),
           (''LOC Added'', JInt 5), (''LOC Deleted'', JInt 0), (''Plugin Version'', JStr ''''),
           (''IDE Version'', JStr '''')]]"
proof (rule conjI)
  show "create_main_metrics_sheet
     [JObj [(''day'', JStr ''2024-01-01''), (''user_login'', JStr ''alice''),
            (''totals_by_ide'', JArr [JObj [(''ide'', JStr ''vscode''), (''loc_added_sum'', JInt 5)]])]]
   = Inr [[(''Report Start'', JStr ''''), (''Report End'', JStr ''''),
           (''Day'', JStr ''2024-01-01''), (''Enterprise ID'', JStr ''''), (''User ID'', JStr ''''),
           (''User Login'', JStr ''alice''), (''User Initiated Interactions'', JInt 0),
           (''Code Generation Activity'', JInt 0), (''Code Acceptance Activity'', JInt 0),
           (''LOC Suggested to Add'', JInt 0), (''LOC Suggested to Delete'', JInt 0),
           (''LOC Added'', JInt 0), (''LOC Deleted'', JInt 0), (''Used Agent'', JBool False),
           (''Used Chat'', JBool False)]]"
    by (simp add: create_main_metrics_sheet_def main_row_obj dict_get_def)
  show "create_ide_totals_sheet
     [JObj [(''day'', JStr ''2024-01-01''), (''user_login'', JStr ''alice''),
            (''totals_by_ide'', JArr [JObj [(''ide'', JStr ''vscode''), (''loc_added_sum'', JInt 5)]])]]
   = Inr [[(''User Login'', JStr ''alice''), (''Day'', JStr ''2024-01-01''),
           (''IDE'', JStr ''vscode''), (''User Initiated Interactions'', JInt 0),
           (''Code Generation Activity'', JInt 0), (''Code Acceptance Activity'', JInt 0),
           (''LOC Suggested to Add'', JInt 0), (''LOC Suggested to Delete'', JInt 0),
           (''LOC Added'', JInt 5), (''LOC Deleted'', JInt 0), (''Plugin Version'', JStr ''''),
           (''IDE Version'', JStr '''')]]"
    by (simp add: create_ide_totals_sheet_def user_info_def ide_display_def dict_get_def
        dict_update_def dict_set_def dict_copy_def)
qed





text \<open>
  Claim C5. When the file is missing, or reading it raises another exception, or the text
  is no JSON document and none of its lines is both non-blank and parseable, the loader
  returns the empty list (the loader has no exceptional result) and the conversion returns
  at once, with no workbook. So it is for an empty or white-space-only file, given that
  \<^verbatim>\<open>json.loads\<close> rejects the empty string.
\<close>

theorem loader_empty:
  "((fs path = FileNotFoundError \<or> fs path = OtherException \<or>
     (\<exists>text. fs path = Content text \<and> loads (strip text) = None \<and>
        (\<forall>l\<in>set (split_nl (strip text)). strip l = [] \<or> loads l = None))) \<longrightarrow>
      load_json_data loads fs path = [] \<and> convert_json_to_xlsx loads fs path = Inr None) \<and>
   ((\<exists>text. fs path = Content text \<and> (\<forall>c\<in>set text. isspace c)) \<and> loads [] = None \<longrightarrow>
      load_json_data loads fs path = [] \<and> convert_json_to_xlsx loads fs path = Inr None)"
proof -
  have conv: "convert_json_to_xlsx loads fs path = Inr None"
    if "load_json_data loads fs path = []"
    using that by (simp add: convert_json_to_xlsx_def)
  have a: "load_json_data loads fs path = []"
    if "fs path = FileNotFoundError \<or> fs path = OtherException \<or>
     (\<exists>text. fs path = Content text \<and> loads (strip text) = None \<and>
        (\<forall>l\<in>set (split_nl (strip text)). strip l = [] \<or> loads l = None))"
    using that
  proof (elim disjE exE conjE)
    fix body
    assume t: "fs path = Content body" "loads (strip body) = None"
      and n: "\<forall>l\<in>set (split_nl (strip body)). strip l = [] \<or> loads l = None"
    from n have "filter (\<lambda>l. strip l \<noteq> [] \<and> loads l \<noteq> None) (split_nl (strip body)) = []"
      by (auto simp: filter_empty_conv)
    moreover have "load_json_data loads fs path = parsed_lines loads (split_nl (strip body))"
      using t by (rule load_json_data_jsonl [of fs path body loads])
    ultimately show ?thesis
      unfolding parsed_lines_def by simp
  qed (simp_all add: load_json_data_def)
  have b: "load_json_data loads fs path = []"
    if "(\<exists>text. fs path = Content text \<and> (\<forall>c\<in>set text. isspace c)) \<and> loads [] = None"
  proof -
    from that obtain body where t: "fs path = Content body" "\<forall>c\<in>set body. isspace c"
      and e: "loads [] = None" by blast
    from t(2) have s: "strip body = []" by (rule strip_all_space)
    have "strip [] = []" by (simp add: strip_def)
    with t(1) e s show ?thesis
      by (simp add: load_json_data_def)
  qed
  from a b conv show ?thesis by blast
qed

text \<open>The theorem on a missing file and on a file of a space and a newline.\<close>

theorem loader_empty_witness:
  "sample_fs ''missing.json'' = FileNotFoundError \<and>
   load_json_data sample_loads sample_fs ''missing.json'' = [] \<and>
   convert_json_to_xlsx sample_loads sample_fs ''missing.json'' = Inr None \<and>
   sample_fs ''blank.json'' = Content '' \<newline>'' \<and>
   list_all isspace '' \<newline>'' \<and>
   sample_loads [] = None \<and>
   load_json_data sample_loads sample_fs ''blank.json'' = [] \<and>
   convert_json_to_xlsx sample_loads sample_fs ''blank.json'' = Inr None"
proof -
  have m: "sample_fs ''missing.json'' = FileNotFoundError"
    by (simp add: sample_fs_def)
  have b: "sample_fs ''blank.json'' = Content '' \<newline>''"
    by (simp add: sample_fs_def)
  have sp: "list_all isspace '' \<newline>''" by (simp add: isspace_def)
  have e: "sample_loads [] = None" by (simp add: sample_loads_def)
  from m loader_empty [of sample_fs "''missing.json''" sample_loads]
  have 1: "load_json_data sample_loads sample_fs ''missing.json'' = [] \<and>
    convert_json_to_xlsx sample_loads sample_fs ''missing.json'' = Inr None"
    by blast
  from sp have "\<forall>c\<in>set '' \<newline>''. isspace c" unfolding list_all_iff .
  with b e loader_empty [of sample_fs "''blank.json''" sample_loads]
  have 2: "load_json_data sample_loads sample_fs ''blank.json'' = [] \<and>
    convert_json_to_xlsx sample_loads sample_fs ''blank.json'' = Inr None"
    by blast
  from m b sp e 1 2 show ?thesis by (intro conjI) (elim conjE, assumption)+
qed



text \<open>
  Claim C9 says that the builders are total once every record is an object. The IDE
  builder is not: on the one record \<^verbatim>\<open>{"totals_by_ide": null}\<close>, an object, the loop over
  \<^verbatim>\<open>record.get("totals_by_ide", [])\<close> raises TypeError.
\<close>

theorem ide_builder_raises_on_objects:
  "list_all is_object [JObj [(''totals_by_ide'', JNull)]] \<and>
   create_ide_totals_sheet [JObj [(''totals_by_ide'', JNull)]] = Inl TypeError"
  by (simp add: create_ide_totals_sheet_def user_info_def dict_get_def)

text \<open>
  Claim C9, as amended. The loader wraps every JSON value that is not an array, a bare
  string or number too, into a one-element list. When some record is not an object, the
  main-metrics builder raises AttributeError and each breakdown builder raises. When every
  record is an object, the main-metrics builder returns a table. A breakdown builder
  returns a table when every record is an object whose nested field is absent or an array
  of objects (for the IDE builder, objects whose \<^verbatim>\<open>last_known_plugin_version\<close> and
  \<^verbatim>\<open>last_known_ide_version\<close> are absent or objects).
\<close>

theorem builders_total_on_accepted_records:
  "(fs path = Content text \<and> loads (strip text) = Some v \<and> (\<forall>xs. v \<noteq> JArr xs) \<longrightarrow>
      load_json_data loads fs path = [v]) \<and>
   (\<not> (\<forall>r\<in>set data. is_object r) \<longrightarrow>
      create_main_metrics_sheet data = Inl AttributeError \<and>
      (\<forall>(field, entry_ok, builder)\<in>set breakdown_builders. \<exists>e. builder data = Inl e)) \<and>
   ((\<forall>r\<in>set data. is_object r) \<longrightarrow> (\<exists>rows. create_main_metrics_sheet data = Inr rows)) \<and>
   (\<forall>(field, entry_ok, builder)\<in>set breakdown_builders.
      (\<forall>r\<in>set data. record_ok field entry_ok r) \<longrightarrow> (\<exists>rows. builder data = Inr rows))"
proof (intro conjI)
  show "fs path = Content text \<and> loads (strip text) = Some v \<and> (\<forall>xs. v \<noteq> JArr xs) \<longrightarrow>
      load_json_data loads fs path = [v]"
    by (cases v) (simp_all add: load_json_data_def)
  show "\<not> (\<forall>r\<in>set data. is_object r) \<longrightarrow>
      create_main_metrics_sheet data = Inl AttributeError \<and>
      (\<forall>(field, entry_ok, builder)\<in>set breakdown_builders. \<exists>e. builder data = Inl e)"
  proof (intro impI conjI)
    assume n: "\<not> (\<forall>r\<in>set data. is_object r)"
    then show "create_main_metrics_sheet data = Inl AttributeError"
      unfolding create_main_metrics_sheet_def by (rule main_loop_fails)
    show "\<forall>(field, entry_ok, builder)\<in>set breakdown_builders. \<exists>e. builder data = Inl e"
      using breakdown_builders_fail [OF _ n] by auto
  qed
  show "(\<forall>r\<in>set data. is_object r) \<longrightarrow> (\<exists>rows. create_main_metrics_sheet data = Inr rows)"
    unfolding create_main_metrics_sheet_def using main_loop_total [of data "[]"] by blast
  show "\<forall>(field, entry_ok, builder)\<in>set breakdown_builders.
      (\<forall>r\<in>set data. record_ok field entry_ok r) \<longrightarrow> (\<exists>rows. builder data = Inr rows)"
    using breakdown_builders_total [of _ _ _ data] by auto
qed

text \<open>
  The theorem on the file that holds the number 7, on the record list it loads, and on
  records that the builders accept.
\<close>

theorem builders_total_on_accepted_records_witness:
  "sample_fs ''n.json'' = Content ''7'' \<and> sample_loads (strip ''7'') = Some (JInt 7) \<and>
   load_json_data sample_loads sample_fs ''n.json'' = [JInt 7] \<and>
   \<not> list_all is_object [JInt 7] \<and>
   create_main_metrics_sheet [JInt 7] = Inl AttributeError \<and>
   (\<exists>e. create_ide_totals_sheet [JInt 7] = Inl e) \<and>
   list_all is_object [JObj []] \<and>
   (\<exists>rows. create_main_metrics_sheet [JObj []] = Inr rows) \<and>
   (''totals_by_ide'', ide_entry_ok, create_ide_totals_sheet) \<in> set breakdown_builders \<and>
   list_all (record_ok ''totals_by_ide'' ide_entry_ok) [JObj [(''totals_by_ide'', JArr [JObj []])]] \<and>
   (\<exists>rows. create_ide_totals_sheet [JObj [(''totals_by_ide'', JArr [JObj []])]] = Inr rows)"
proof -
  have f: "sample_fs ''n.json'' = Content ''7''" by (simp add: sample_fs_def)
  have l: "sample_loads (strip ''7'') = Some (JInt 7)"
    by (simp add: strip_seven sample_loads_def)
  have na: "\<forall>xs. JInt 7 \<noteq> JArr xs" by simp
  have mem: "(''totals_by_ide'', ide_entry_ok, create_ide_totals_sheet) \<in> set breakdown_builders"
    by (simp add: breakdown_builders_def)
  have no: "\<not> list_all is_object [JInt 7]" by simp
  then have no': "\<not> (\<forall>r\<in>set [JInt 7]. is_object r)" unfolding list_all_iff .
  have ob: "list_all is_object [JObj []]" by simp
  then have ob': "\<forall>r\<in>set [JObj []]. is_object r" unfolding list_all_iff .
  have ok: "list_all (record_ok ''totals_by_ide'' ide_entry_ok)
      [JObj [(''totals_by_ide'', JArr [JObj []])]]"
    by (simp add: record_ok_def ide_entry_ok_def dict_get_def)
  then have ok': "\<forall>r\<in>set [JObj [(''totals_by_ide'', JArr [JObj []])]].
      record_ok ''totals_by_ide'' ide_entry_ok r"
    unfolding list_all_iff .
  have 1: "load_json_data sample_loads sample_fs ''n.json'' = [JInt 7]"
    using builders_total_on_accepted_records
      [of sample_fs "''n.json''" "''7''" sample_loads "JInt 7" "[]"] f l na
    by blast
  have 2: "create_main_metrics_sheet [JInt 7] = Inl AttributeError \<and>
      (\<exists>e. create_ide_totals_sheet [JInt 7] = Inl e)"
    using builders_total_on_accepted_records
      [of sample_fs "''n.json''" "''7''" sample_loads "JInt 7" "[JInt 7]"] no' mem
    by (elim conjE) (drule mp, assumption, drule (1) bspec, blast)
  have 3: "\<exists>rows. create_main_metrics_sheet [JObj []] = Inr rows"
    using builders_total_on_accepted_records
      [of sample_fs "''n.json''" "''7''" sample_loads "JInt 7" "[JObj []]"] ob'
    by (elim conjE) (drule mp, assumption)
  have 4: "\<exists>rows. create_ide_totals_sheet [JObj [(''totals_by_ide'', JArr [JObj []])]] = Inr rows"
    using builders_total_on_accepted_records
      [of sample_fs "''n.json''" "''7''" sample_loads "JInt 7"
        "[JObj [(''totals_by_ide'', JArr [JObj []])]]"] ok' mem
    by (elim conjE) (drule (1) bspec, blast)
  from f l 1 no 2 ob 3 mem ok 4 show ?thesis by (intro conjI) (elim conjE, assumption)+
qed

text \<open>
  Claim C8. Every sheet builder is a pure function of the record list. Take any store
  and any value \<open>data\<close> that stands in it for a list of JSON values \<open>records\<close>, as the
  loader returns one. Then each of the six builders, run over the store, returns; the
  store it leaves has every object of the store it was given, unchanged, followed by the
  objects the builder allocated, so \<open>data\<close> still stands for \<open>records\<close>: the record list
  and every record in it are as they were, also when the builder raises. And what it
  returns is what the builder over values returns on \<open>records\<close>, the same exception or a
  reference that stands for the same table: the result depends on the JSON value of the
  record list only, not on the addresses or on anything else in the store, and is the
  same for the same input.
\<close>

theorem sheet_builders_pure:
  assumes "(builder_st, builder) \<in> set sheet_builders_st"
    and "repr s data (JArr records)"
  shows "\<exists>r s'. builder_st data s = Some (r, s') \<and>
           take (length s) s' = s \<and>
           repr s' data (JArr records) \<and>
           returns_table s' r (builder records)"
proof -
  from sheet_builders_refine [OF assms] obtain r s' where
    b: "builder_st data s = Some (r, s')" "prefix s s'"
       "returns_table s' r (builder records)" by blast
  from b(2) have "take (length s) s' = s" by (auto simp: prefix_def)
  moreover from repr_mono [OF assms(2) b(2)] have "repr s' data (JArr records)" .
  ultimately show ?thesis using b(1,3) by blast
qed

theorem sheet_builders_pure_witness:
  "repr sample_store (VRef 3) (JArr sample_records) \<and>
   (\<exists>r s'. create_ide_totals_sheet_st (VRef 3) sample_store = Some (r, s') \<and>
      take (length sample_store) s' = sample_store \<and>
      repr s' (VRef 3) (JArr sample_records) \<and>
      returns_table s' r (create_ide_totals_sheet sample_records))"
proof -
  have m: "(create_ide_totals_sheet_st, create_ide_totals_sheet) \<in> set sheet_builders_st"
    by (simp add: sheet_builders_st_def)
  have r: "repr sample_store (VRef 3) (JArr sample_records)"
    by (simp add: sample_store_def sample_records_def Let_def)
  from r sheet_builders_pure [OF m r] show ?thesis by (rule conjI)
qed

end
